theory Spec2Isabelle
  imports Complex_Main "HOL-Library.Finite_Map"
begin

section \<open>Data model (types/types.go)\<close>

text \<open>
  Go structs are records. Where two structs of the source share a field name, the
  later record carries a short prefix (\<open>JMsg\<close>, \<open>StepLogs\<close>, \<open>WfLogs\<close>, \<open>HPath\<close>,
  \<open>UserID\<close>, \<open>MType\<close>). A Go \<open>float64\<close> is modelled by an exact real number: rounding,
  infinities and NaN are outside the model. \<open>int\<close>, \<open>int64\<close> and \<open>uint64\<close> values are
  only stored, copied and compared in the code modelled here, so they are \<open>int\<close> and
  \<open>nat\<close>. A Go map of a User is a finite map. The \<open>LastUpdate\<close> time stamp, the
  \<open>Running\<close> channel and the \<open>Userface\<close> of a SubmitCtx take no part in any decision of
  the modelled functions; the first is left out, the other two are modelled on their
  own below.
\<close>

record JudgeResult =
  Success :: bool
  Score :: real
  JMsg :: string
  Memory :: nat
  Time :: nat

record WorkflowStepResult =
  StepLogs :: string
  StepExitCode :: int

record WorkflowResult =
  WfSuccess :: bool
  WfLogs :: string
  WfExitCode :: int
  WfSteps :: "WorkflowStepResult list"

record SubmitHash =
  HPath :: string
  Hash :: string

record SubmitCtx =
  ID :: string
  User :: string
  Problem :: string
  SubmitTime :: int
  Status :: string
  Msg :: string
  SubmitDir :: string
  SubmitsHashes :: "SubmitHash list"
  Workdir :: string
  WorkflowResults :: "WorkflowResult list"
  JudgeResult :: JudgeResult
  RealWorkdir :: string

record Submit =
  Path :: string
  IsDir :: bool

record Mount =
  MType :: string
  Source :: string
  Target :: string
  ReadOnly :: bool

record Workflow =
  Image :: string
  Steps :: "string list"
  Timeout :: int
  Root :: bool
  DisableNetwork :: bool
  Show :: "int list"
  PrivilegedSteps :: "int list"
  NetworkHostMode :: bool
  Mounts :: "Mount list"

record Problem =
  Version :: int
  Id :: string
  Text :: string
  Weight :: real
  Submits :: "Submit list"
  Workflow :: "Workflow list"

record User =
  UserID :: string
  Token :: string
  BestScores :: "(string, real) fmap"
  BestSubmits :: "(string, string) fmap"
  BestSubmitDate :: "(string, int) fmap"
  TotalScore :: real

text \<open>The zero value of JudgeResult, as a freshly built SubmitCtx has it.\<close>

definition zero_JudgeResult :: JudgeResult where
  "zero_JudgeResult = \<lparr>Success = False, Score = 0, JMsg = [], Memory = 0, Time = 0\<rparr>"

section \<open>The store (types/database.go)\<close>

text \<open>
  The two tables. Users are keyed by their primary key \<open>id\<close>; the submissions are the
  rows in the order in which an unordered \<open>Find\<close> returns them. The store is taken to
  be reliable: a gorm error other than "record not found" is not modelled.
\<close>

record Store =
  users :: "string \<rightharpoonup> User"
  submits :: "SubmitCtx list"

datatype error = Fatal | RecordNotFound | OpenFailed

text \<open>Reading a Go \<open>map[string]float64\<close> at a missing key gives the zero value.\<close>

definition index0 :: "(string, real) fmap \<Rightarrow> string \<Rightarrow> real" where
  "index0 m k = (case fmlookup m k of None \<Rightarrow> 0 | Some v \<Rightarrow> v)"

text \<open>
  \<open>CalculateTotalScore\<close> adds up the values of \<open>BestScores\<close> in the order in which Go
  ranges over the map, which is unspecified; over exact numbers the total is the sum
  over the keys (lemma \<open>range_order_total\<close> below covers every order).
\<close>

definition sum_values :: "(string, real) fmap \<Rightarrow> real" where
  "sum_values m = (\<Sum>k\<in>fmdom' m. the (fmlookup m k))"

definition CalculateTotalScore :: "User \<Rightarrow> User" where
  "CalculateTotalScore u = u\<lparr>TotalScore := sum_values (BestScores u)\<rparr>"

text \<open>The token is a fresh UUID in the source; here it is an argument.\<close>

definition CreateUser :: "string \<Rightarrow> string \<Rightarrow> Store \<Rightarrow> User \<times> Store" where
  "CreateUser tok userID st =
     (let user = \<lparr>UserID = userID, Token = tok, BestScores = fmempty,
                  BestSubmits = fmempty, BestSubmitDate = fmempty, TotalScore = 0\<rparr>
      in (user, st\<lparr>users := (users st)(userID \<mapsto> user)\<rparr>))"

definition GetUserByID :: "string \<Rightarrow> string \<Rightarrow> Store \<Rightarrow> User \<times> Store" where
  "GetUserByID tok userID st =
     (case users st userID of
        None \<Rightarrow> CreateUser tok userID st
      | Some user \<Rightarrow> (user, st))"

definition UpdateUser :: "User \<Rightarrow> Store \<Rightarrow> Store" where
  "UpdateUser user st =
     (let user' = CalculateTotalScore user
      in st\<lparr>users := (users st)(UserID user' \<mapsto> user')\<rparr>)"

text \<open>The three assignments that install a submission as the best of its problem.\<close>

definition install :: "SubmitCtx \<Rightarrow> real \<Rightarrow> User \<Rightarrow> User" where
  "install s newScore u =
     u\<lparr>BestScores := fmupd (Problem s) newScore (BestScores u),
       BestSubmits := fmupd (Problem s) (ID s) (BestSubmits u),
       BestSubmitDate := fmupd (Problem s) (SubmitTime s) (BestSubmitDate u)\<rparr>"

text \<open>\<open>update_body\<close> is the conditional of \<open>UpdateUserSubmitResult\<close>, between the
  loading and the saving of the user.\<close>

definition update_body :: "SubmitCtx \<Rightarrow> Problem \<Rightarrow> User \<Rightarrow> User" where
  "update_body submit problem user =
     (if Status submit = ''completed'' \<and> Success (JudgeResult submit) then
        (let newScore = Score (JudgeResult submit) * Weight problem
         in if index0 (BestScores user) (Problem submit) < newScore
            then install submit newScore user else user)
      else user)"

definition UpdateUserSubmitResult ::
  "string \<Rightarrow> string \<Rightarrow> SubmitCtx \<Rightarrow> Problem \<Rightarrow> Store \<Rightarrow> Store" where
  "UpdateUserSubmitResult tok userID submit problem st =
     (let (user, st1) = GetUserByID tok userID st
      in UpdateUser (update_body submit problem user) st1)"

text \<open>
  \<open>DoFullUserScan\<close>. The working map \<open>userMap\<close> holds every row of the user table
  under its primary key, so it starts as the table itself. \<open>scan_body\<close> is the body of
  the loop over the submissions once the user is found, \<open>scan_loop\<close> the loop;
  \<open>log.Fatal\<close> ends the process before anything is saved, which is the value
  \<open>Inl Fatal\<close>. The last loop saves every entry, with its total recomputed, under its
  key.
\<close>

definition scan_body :: "(string \<rightharpoonup> Problem) \<Rightarrow> SubmitCtx \<Rightarrow> User \<Rightarrow> User" where
  "scan_body problems s u =
     (if Status s = ''completed'' \<and> Success (JudgeResult s) then
        (case problems (Problem s) of
           None \<Rightarrow> u
         | Some problem \<Rightarrow>
             (let newScore = Score (JudgeResult s) * Weight problem
              in if index0 (BestScores u) (Problem s) < newScore
                 then install s newScore u else u))
      else u)"

fun scan_loop ::
  "(string \<rightharpoonup> Problem) \<Rightarrow> SubmitCtx list \<Rightarrow> (string \<rightharpoonup> User) \<Rightarrow> error + (string \<rightharpoonup> User)" where
  "scan_loop problems [] userMap = Inr userMap"
| "scan_loop problems (s # ss) userMap =
     (case userMap (User s) of
        None \<Rightarrow> Inl Fatal
      | Some u \<Rightarrow> scan_loop problems ss (userMap(User s \<mapsto> scan_body problems s u)))"

definition DoFullUserScan :: "(string \<rightharpoonup> Problem) \<Rightarrow> Store \<Rightarrow> error + Store" where
  "DoFullUserScan problems st =
     (case scan_loop problems (submits st) (users st) of
        Inl e \<Rightarrow> Inl e
      | Inr userMap \<Rightarrow>
          Inr (st\<lparr>users := (\<lambda>k. map_option CalculateTotalScore (userMap k))\<rparr>))"

text \<open>
  Submission rows. Only the persisted columns reach the table (\<open>SubmitDir\<close>,
  \<open>Workdir\<close> and \<open>RealWorkdir\<close> are \<open>gorm:"-"\<close>). \<open>Save\<close> replaces the row with the same
  primary key, or inserts.
\<close>

definition persisted :: "SubmitCtx \<Rightarrow> SubmitCtx" where
  "persisted s = s\<lparr>SubmitDir := [], Workdir := [], RealWorkdir := []\<rparr>"

definition UpdateSubmit :: "SubmitCtx \<Rightarrow> Store \<Rightarrow> Store" where
  "UpdateSubmit submit st =
     (if ID submit \<in> ID ` set (submits st)
      then st\<lparr>submits := map (\<lambda>r. if ID r = ID submit then persisted submit else r) (submits st)\<rparr>
      else st\<lparr>submits := submits st @ [persisted submit]\<rparr>)"

definition GetSubmitByID :: "string \<Rightarrow> Store \<Rightarrow> SubmitCtx option" where
  "GetSubmitByID submitID st = find (\<lambda>s. ID s = submitID) (submits st)"

text \<open>The targeted rescan and the admin rescoring.\<close>

definition recalc_body :: "(string \<rightharpoonup> Problem) \<Rightarrow> SubmitCtx \<Rightarrow> User \<Rightarrow> User" where
  "recalc_body problems submit user =
     (if Success (JudgeResult submit) then
        (case problems (Problem submit) of
           None \<Rightarrow> user
         | Some problem \<Rightarrow>
             (let weightedScore = Score (JudgeResult submit) * Weight problem
              in case fmlookup (BestScores user) (Problem submit) of
                   None \<Rightarrow> install submit weightedScore user
                 | Some currentBest \<Rightarrow>
                     if weightedScore > currentBest
                     then install submit weightedScore user else user))
      else user)"

definition RecalculateUserBestScoresWithProblems ::
  "string \<Rightarrow> string \<Rightarrow> (string \<rightharpoonup> Problem) \<Rightarrow> Store \<Rightarrow> Store" where
  "RecalculateUserBestScoresWithProblems tok userID problems st =
     (let (user, st1) = GetUserByID tok userID st;
          user0 = user\<lparr>BestScores := fmempty, BestSubmits := fmempty,
                      BestSubmitDate := fmempty\<rparr>;
          subs = filter (\<lambda>s. User s = userID \<and> Status s = ''completed'') (submits st1);
          user1 = fold (recalc_body problems) subs user0
      in UpdateUser (CalculateTotalScore user1) st1)"

definition ModifySubmissionResult ::
  "string \<Rightarrow> string \<Rightarrow> real \<Rightarrow> string \<Rightarrow> (string \<rightharpoonup> Problem) \<Rightarrow> Store \<Rightarrow> error + Store" where
  "ModifySubmissionResult tok submitID score message problems st =
     (case GetSubmitByID submitID st of
        None \<Rightarrow> Inl RecordNotFound
      | Some submit \<Rightarrow>
          (let submit' = submit\<lparr>JudgeResult := (JudgeResult submit)\<lparr>Score := score, Success := (score > 0)\<rparr>,
                                Msg := message, Status := ''completed''\<rparr>;
               st1 = UpdateSubmit submit' st
           in Inr (RecalculateUserBestScoresWithProblems tok (User submit') problems st1)))"

text \<open>
  \<open>NewDatabaseService\<close>: when the database opens, every row whose status is none of
  \<open>completed\<close>, \<open>dead\<close>, \<open>failed\<close> gets the status \<open>dead\<close>.
\<close>

definition reap :: "SubmitCtx \<Rightarrow> SubmitCtx" where
  "reap s =
     (if Status s \<noteq> ''completed'' \<and> Status s \<noteq> ''dead'' \<and> Status s \<noteq> ''failed''
      then s\<lparr>Status := ''dead''\<rparr> else s)"

definition NewDatabaseService :: "bool \<Rightarrow> Store \<Rightarrow> error + Store" where
  "NewDatabaseService open_ok st =
     (if \<not> open_ok then Inl OpenFailed
      else Inr (st\<lparr>submits := map reap (submits st)\<rparr>))"

section \<open>Go library functions used by the judge\<close>

text \<open>
  \<open>strconv.Itoa\<close>: the decimal form of an integer.
\<close>

fun digits_of :: "nat \<Rightarrow> string" where
  "digits_of n =
     (if n < 10 then [''0123456789'' ! n]
      else digits_of (n div 10) @ [''0123456789'' ! (n mod 10)])"

declare digits_of.simps [simp del]

definition Itoa :: "int \<Rightarrow> string" where
  "Itoa i = (if i < 0 then CHR ''-'' # digits_of (nat (- i)) else digits_of (nat i))"

text \<open>
  \<open>strconv.Quote\<close> on a string of ASCII bytes: the string between double quotes, with
  the double quote and the backslash escaped, the control characters written as
  \<open>\a \b \f \n \r \t \v\<close> or \<open>\xhh\<close>. A byte from 0x80 on is copied, as Go does for the
  bytes of a printable rune; the escapes that Go writes for other runes and for
  invalid UTF-8 are not modelled.
\<close>

definition hex_digit :: "nat \<Rightarrow> char" where
  "hex_digit n = ''0123456789abcdef'' ! n"

definition quote_byte :: "char \<Rightarrow> string" where
  "quote_byte c =
     (let n = (of_char c :: nat) in
      if n = 34 then [CHR 0x5C, CHR 0x22]
      else if n = 92 then [CHR 0x5C, CHR 0x5C]
      else if n = 7 then [CHR 0x5C, CHR ''a'']
      else if n = 8 then [CHR 0x5C, CHR ''b'']
      else if n = 12 then [CHR 0x5C, CHR ''f'']
      else if n = 10 then [CHR 0x5C, CHR ''n'']
      else if n = 13 then [CHR 0x5C, CHR ''r'']
      else if n = 9 then [CHR 0x5C, CHR ''t'']
      else if n = 11 then [CHR 0x5C, CHR ''v'']
      else if n < 32 \<or> n = 127
        then [CHR 0x5C, CHR ''x'', hex_digit (n div 16), hex_digit (n mod 16)]
      else [c])"

definition Quote :: "string \<Rightarrow> string" where
  "Quote s = CHR 0x22 # concat (map quote_byte s) @ [CHR 0x22]"

text \<open>\<open>filepath.IsAbs\<close> on Unix: the path starts with a slash.\<close>

definition IsAbs :: "string \<Rightarrow> bool" where
  "IsAbs p = (case p of [] \<Rightarrow> False | c # _ \<Rightarrow> c = CHR ''/'')"

section \<open>The judge (judge/problem.go)\<close>

text \<open>
  The file system, the container driver and the result file are outside the program.
  Every call to them is an event of a trace, recorded with what it returned, and the
  world answers a call from the trace so far, so that an answer may depend on
  everything that happened before. Writes to the store (\<open>UpdateSubmit\<close>) are events
  too, carrying the row written. Printing to the Userface and logging decide nothing
  in \<open>RunJudge\<close> and are left out (\<open>Userface.Write\<close> is modelled below).
\<close>

record Config =
  SubmitsDir :: string
  SubmitWorkDir :: string
  RealSubmitWorkDir :: string
  SubmitGid :: int
  SubmitUid :: int

datatype oscall =
    Mkdir string
  | Chown string int int
  | MkdirAll string
  | Chmod string
  | Open string
  | Create string
  | Sync string

record RunArgs =
  r_name :: string
  r_user :: string
  r_hostname :: string
  r_image :: string
  r_workdir :: string
  r_mounts :: "Mount list"
  r_mask :: bool
  r_readonly_rootfs :: bool
  r_networkdisabled :: bool
  r_timeout :: int
  r_networkhosted :: bool
  r_env :: "string list"

record ExecArgs =
  x_id :: string
  x_cmd :: string
  x_timeout :: int
  x_show :: bool
  x_env :: "string list"
  x_privileged :: bool

text \<open>An entry reported by \<open>filepath.WalkDir\<close>: the path, whether it is a directory,
  and whether the walk reports an error for it.\<close>

type_synonym walk_item = "string \<times> bool \<times> bool"

text \<open>
  In \<open>OS c e\<close> the flag \<open>e\<close> says that the call returned an error; \<open>Copy\<close> carries the
  hex MD5 digest computed while copying, or \<open>None\<close> for an error; \<open>Exec i j a ec logs err\<close>
  is the execution of step \<open>j\<close> of workflow \<open>i\<close> (both counted from 0).
\<close>

datatype event =
    OS oscall bool
  | Copy string string "string option"
  | Walk string "walk_item list"
  | Run RunArgs bool string
  | Exec nat nat ExecArgs int string bool
  | Logs string string bool
  | Clean string
  | Read string "string option"
  | Persist SubmitCtx
  | CloseRunning

record world =
  os_fail :: "event list \<Rightarrow> oscall \<Rightarrow> bool"
  io_Copy :: "event list \<Rightarrow> string \<Rightarrow> string \<Rightarrow> string option"
  WalkDir :: "event list \<Rightarrow> string \<Rightarrow> walk_item list"
  RunImage :: "event list \<Rightarrow> RunArgs \<Rightarrow> bool \<times> string"
  ExecContainer :: "event list \<Rightarrow> ExecArgs \<Rightarrow> int \<times> string \<times> bool"
  GetContainerLogs :: "event list \<Rightarrow> string \<Rightarrow> string \<times> bool"
  ReadFile :: "event list \<Rightarrow> string \<Rightarrow> string option"
  json_Unmarshal :: "string \<Rightarrow> JudgeResult \<Rightarrow> bool \<times> JudgeResult"
  path_Join :: "string \<Rightarrow> string \<Rightarrow> string"
  path_Dir :: "string \<Rightarrow> string"
  filepath_Rel :: "string \<Rightarrow> string \<Rightarrow> string"

type_synonym jstate = "SubmitCtx \<times> event list"

definition SetStatus :: "string \<Rightarrow> SubmitCtx \<Rightarrow> SubmitCtx" where
  "SetStatus status ctx = ctx\<lparr>Status := status\<rparr>"

definition SetMsg :: "string \<Rightarrow> SubmitCtx \<Rightarrow> SubmitCtx" where
  "SetMsg msg ctx = ctx\<lparr>Msg := msg\<rparr>"

definition persist :: "jstate \<Rightarrow> jstate" where
  "persist st = (fst st, snd st @ [Persist (persisted (fst st))])"

text \<open>\<open>ctx.SetStatus("failed").SetMsg(msg); UpdateSubmit(ctx)\<close>, as before every early return.\<close>

definition fail_with :: "string \<Rightarrow> jstate \<Rightarrow> jstate" where
  "fail_with msg st = persist (SetMsg msg (SetStatus ''failed'' (fst st)), snd st)"

definition os_call :: "world \<Rightarrow> event list \<Rightarrow> oscall \<Rightarrow> bool \<times> event list" where
  "os_call w tr c = (let e = os_fail w tr c in (e, tr @ [OS c e]))"

text \<open>The six calls that create the working directories stop at the first error.\<close>

fun try_all :: "world \<Rightarrow> oscall list \<Rightarrow> event list \<Rightarrow> bool \<times> event list" where
  "try_all w [] tr = (False, tr)"
| "try_all w (c # cs) tr =
     (let (e, tr1) = os_call w tr c in if e then (True, tr1) else try_all w cs tr1)"

definition copyFile :: "world \<Rightarrow> event list \<Rightarrow> string \<Rightarrow> string \<Rightarrow> string option \<times> event list" where
  "copyFile w tr src dst =
     (let (e1, tr1) = os_call w tr (Open src) in
      if e1 then (None, tr1) else
      let (e2, tr2) = os_call w tr1 (Create dst) in
      if e2 then (None, tr2) else
      let h = io_Copy w tr2 src dst; tr3 = tr2 @ [Copy src dst h] in
      case h of
        None \<Rightarrow> (None, tr3)
      | Some md5String \<Rightarrow>
          (let (e4, tr4) = os_call w tr3 (Sync dst) in
           if e4 then (None, tr4) else (Some md5String, tr4)))"

text \<open>\<open>submitFile\<close> returns whether it failed. The results of \<open>MkdirAll\<close>, \<open>Chown\<close> and
  \<open>Chmod\<close> are not looked at.\<close>

definition submitFile :: "world \<Rightarrow> Config \<Rightarrow> string \<Rightarrow> string \<Rightarrow> jstate \<Rightarrow> bool \<times> jstate" where
  "submitFile w cfg submits_dir submit_path st =
     (let ctx = fst st;
          src_submit_path = path_Join w (SubmitDir ctx) submit_path;
          dst_submit_path = path_Join w submits_dir submit_path;
          (_, tr1) = os_call w (snd st) (MkdirAll (path_Dir w dst_submit_path));
          (_, tr2) = os_call w tr1 (Chown (path_Dir w dst_submit_path) (SubmitUid cfg) (SubmitGid cfg));
          (hash, tr3) = copyFile w tr2 src_submit_path dst_submit_path
      in case hash of
           None \<Rightarrow> (True, (ctx, tr3))
         | Some h \<Rightarrow>
             (let (_, tr4) = os_call w tr3 (Chown dst_submit_path (SubmitUid cfg) (SubmitGid cfg));
                  (_, tr5) = os_call w tr4 (Chmod dst_submit_path)
              in (False,
                  (ctx\<lparr>SubmitsHashes := SubmitsHashes ctx @ [\<lparr>HPath = submit_path, Hash = h\<rparr>]\<rparr>,
                   tr5))))"

text \<open>The callback of \<open>filepath.WalkDir\<close>, run over the entries of the walk; the walk
  stops at the first error the callback returns.\<close>

fun walk_loop ::
  "world \<Rightarrow> Config \<Rightarrow> string \<Rightarrow> string \<Rightarrow> string \<Rightarrow> walk_item list \<Rightarrow> jstate \<Rightarrow> bool \<times> jstate" where
  "walk_loop w cfg submits_dir dir_path decl [] st = (False, st)"
| "walk_loop w cfg submits_dir dir_path decl ((p, isdir, werr) # rest) st =
     (if werr then (True, st)
      else if \<not> isdir then
        (let p' = (if IsAbs p then filepath_Rel w dir_path p else p);
             (err, st1) = submitFile w cfg submits_dir (decl @ ''/'' @ p') st
         in if err then (True, st1)
            else walk_loop w cfg submits_dir dir_path decl rest st1)
      else walk_loop w cfg submits_dir dir_path decl rest st)"

text \<open>Staging one entry of \<open>problem.Submits\<close>: a file, or the walk of a directory.\<close>

definition stage_entry :: "world \<Rightarrow> Config \<Rightarrow> string \<Rightarrow> Submit \<Rightarrow> jstate \<Rightarrow> bool \<times> jstate" where
  "stage_entry w cfg submits_dir submit st =
     (if \<not> IsDir submit then submitFile w cfg submits_dir (Path submit) st
      else
        (let dir_path = SubmitDir (fst st) @ ''/'' @ Path submit;
             items = WalkDir w (snd st) dir_path
         in walk_loop w cfg submits_dir dir_path (Path submit) items
              (fst st, snd st @ [Walk dir_path items])))"

text \<open>The loop over \<open>problem.Submits\<close>; \<open>Inl\<close> is the state at an early return.\<close>

fun stage_loop :: "world \<Rightarrow> Config \<Rightarrow> string \<Rightarrow> Submit list \<Rightarrow> jstate \<Rightarrow> jstate + jstate" where
  "stage_loop w cfg submits_dir [] st = Inr st"
| "stage_loop w cfg submits_dir (submit # rest) st =
     (let (err, st1) = stage_entry w cfg submits_dir submit st
      in if err then
           Inl (fail_with
                  ((if \<not> IsDir submit then ''failed to copy submit file ''
                    else ''failed to copy submit directory '') @ Quote (Path submit)) st1)
         else stage_loop w cfg submits_dir rest st1)"

definition zero_step :: WorkflowStepResult where
  "zero_step = \<lparr>StepLogs = [], StepExitCode = 0\<rparr>"

text \<open>The loop over the steps of a workflow, from step \<open>sidx\<close> on.\<close>

fun run_steps ::
  "world \<Rightarrow> string \<Rightarrow> Workflow \<Rightarrow> string list \<Rightarrow> nat \<Rightarrow> nat \<Rightarrow> string list \<Rightarrow>
   WorkflowStepResult list \<Rightarrow> jstate \<Rightarrow> jstate + (WorkflowStepResult list \<times> jstate)" where
  "run_steps w cid workflow envs idx sidx [] steps st = Inr (steps, st)"
| "run_steps w cid workflow envs idx sidx (step # rest) steps st =
     (let st1 = persist (SetStatus (''run_workflow-'' @ Itoa (int idx) @ ''_'' @ Itoa (int sidx)) (fst st), snd st);
          ok = (int sidx + 1 \<in> set (Show workflow));
          priv = (int sidx + 1 \<in> set (PrivilegedSteps workflow));
          args = \<lparr>x_id = cid, x_cmd = step, x_timeout = Timeout workflow, x_show = ok,
                  x_env = envs, x_privileged = priv\<rparr>;
          (ec, logs, err) = ExecContainer w (snd st1) args;
          st2 = (fst st1, snd st1 @ [Exec idx sidx args ec logs err])
      in if ec \<noteq> 0 \<or> err then
           Inl (fail_with (''failed to run judge '' @ Itoa (int idx + 1) @ '' step '' @ Itoa (int sidx + 1)) st2)
         else run_steps w cid workflow envs idx (sidx + 1) rest
                (steps[sidx := \<lparr>StepLogs = logs, StepExitCode = ec\<rparr>]) (persist st2))"

text \<open>
  The loop over the workflows, from workflow \<open>idx\<close> on. \<open>defers\<close> is the stack of
  containers whose \<open>CleanContainer\<close> has been deferred, the newest first. \<open>Inl\<close> is an
  early return.
\<close>

fun run_workflows ::
  "world \<Rightarrow> Config \<Rightarrow> string \<Rightarrow> string \<Rightarrow> string \<Rightarrow> string \<Rightarrow> nat \<Rightarrow> Workflow list \<Rightarrow>
   string list \<Rightarrow> jstate \<Rightarrow> (string list \<times> jstate) + (string list \<times> jstate)" where
  "run_workflows w cfg submits_dir workflow_dir rsubmits_dir rworkflow_dir idx [] defers st =
     Inr (defers, st)"
| "run_workflows w cfg submits_dir workflow_dir rsubmits_dir rworkflow_dir idx (workflow # rest) defers st =
     (let mount_list =
            [\<lparr>MType = ''bind'', Source = submits_dir, Target = ''/submits'', ReadOnly = True\<rparr>,
             \<lparr>MType = ''bind'', Source = workflow_dir, Target = ''/work'', ReadOnly = False\<rparr>]
            @ map (\<lambda>mnt. \<lparr>MType = MType mnt, Source = Source mnt, Target = Target mnt,
                            ReadOnly = ReadOnly mnt\<rparr>) (Mounts workflow);
          envs =
            [''SOJ_SUBMITS_DIR=/submits'',
             ''SOJ_WORK_DIR=/work'',
             ''SOJ_REAL_WORKDIR='' @ rworkflow_dir,
             ''SOJ_REAL_SUBMITDIR='' @ rsubmits_dir,
             ''SOJ_PROBLEM='' @ Problem (fst st),
             ''SOJ_SUBMIT='' @ ID (fst st),
             ''SOJ_WORK_UID='' @ Itoa (SubmitUid cfg),
             ''SOJ_WORK_GID='' @ Itoa (SubmitGid cfg)];
          st1 = persist (SetStatus (''run_workflow-'' @ Itoa (int idx)) (fst st), snd st);
          usr = (if Root workflow then ''0'' else Itoa (SubmitUid cfg));
          args = \<lparr>r_name = ''soj-judge-'' @ ID (fst st) @ ''-'' @ Itoa (int idx + 1),
                  r_user = usr, r_hostname = ''soj-judgement'', r_image = Image workflow,
                  r_workdir = ''/work'', r_mounts = mount_list, r_mask = False,
                  r_readonly_rootfs = False, r_networkdisabled = DisableNetwork workflow,
                  r_timeout = Timeout workflow, r_networkhosted = NetworkHostMode workflow,
                  r_env = envs\<rparr>;
          (ok, cid) = RunImage w (snd st1) args;
          st2 = (fst st1, snd st1 @ [Run args ok cid])
      in if \<not> ok then Inl (defers, fail_with ''failed to run judge container'' st2)
         else
           (case run_steps w cid workflow envs idx 0 (Steps workflow)
                   (replicate (length (Steps workflow)) zero_step) st2 of
              Inl st3 \<Rightarrow> Inl (cid # defers, st3)
            | Inr (steps, st3) \<Rightarrow>
                (let (logs, err) = GetContainerLogs w (snd st3) cid;
                     st4 = (fst st3, snd st3 @ [Logs cid logs err])
                 in if err then Inl (cid # defers, fail_with ''failed to get judge logs'' st4)
                    else run_workflows w cfg submits_dir workflow_dir rsubmits_dir rworkflow_dir
                           (idx + 1) rest (cid # defers)
                           ((fst st4)\<lparr>WorkflowResults := WorkflowResults (fst st4) @
                               [\<lparr>WfSuccess = True, WfLogs = logs, WfExitCode = 0, WfSteps = steps\<rparr>]\<rparr>,
                            snd st4))))"

text \<open>Reading and parsing \<open>result.json\<close>.\<close>

definition collect_result :: "world \<Rightarrow> string \<Rightarrow> jstate \<Rightarrow> jstate" where
  "collect_result w workflow_dir st =
     (let st1 = persist (SetStatus ''collect_result'' (fst st), snd st);
          result_file = workflow_dir @ ''/result.json'';
          r = ReadFile w (snd st1) result_file;
          st2 = (fst st1, snd st1 @ [Read result_file r])
      in case r of
           None \<Rightarrow> fail_with ''failed to read result file'' st2
         | Some result_bytes \<Rightarrow>
             (let (err, jr) = json_Unmarshal w result_bytes (JudgeResult (fst st2));
                  st3 = ((fst st2)\<lparr>JudgeResult := jr\<rparr>, snd st2)
              in if err then fail_with ''failed to parse result file'' st3
                 else persist (SetMsg ''judge successfully finished'' (SetStatus ''completed'' (fst st3)),
                               snd st3)))"

text \<open>The start of \<open>RunJudge\<close>: the status \<open>prep_dirs\<close> and the creation of the working
  directories; the flag says that a call failed (\<open>goto workdir_creation_failed\<close>).\<close>

definition prepare_dirs :: "world \<Rightarrow> Config \<Rightarrow> SubmitCtx \<Rightarrow> bool \<times> jstate" where
  "prepare_dirs w cfg ctx =
     (let st0 = persist (SetStatus ''prep_dirs'' ctx, []);
          submits_dir = path_Join w (Workdir ctx) ''submits'';
          workflow_dir = path_Join w (Workdir ctx) ''work'';
          (err, tr1) = try_all w
             [Mkdir (Workdir ctx), Mkdir submits_dir, Mkdir workflow_dir,
              Chown (Workdir ctx) (SubmitUid cfg) (SubmitGid cfg),
              Chown submits_dir (SubmitUid cfg) (SubmitGid cfg),
              Chown workflow_dir (SubmitUid cfg) (SubmitGid cfg)] (snd st0)
      in (err, (fst st0, tr1)))"

text \<open>The body of \<open>RunJudge\<close> up to its return, with the stack of deferred cleanups.\<close>

definition judge_body :: "world \<Rightarrow> Config \<Rightarrow> SubmitCtx \<Rightarrow> Problem \<Rightarrow> string list \<times> jstate" where
  "judge_body w cfg ctx problem =
     (let submits_dir = path_Join w (Workdir ctx) ''submits'';
          workflow_dir = path_Join w (Workdir ctx) ''work'';
          rsubmits_dir = path_Join w (RealWorkdir ctx) ''submits'';
          rworkflow_dir = path_Join w (RealWorkdir ctx) ''work'';
          (err, st0) = prepare_dirs w cfg ctx
      in if err then ([], fail_with ''failed to create submit workdir'' st0)
         else
           (case stage_loop w cfg submits_dir (Submits problem)
                   (persist (SetStatus ''prep_files'' (fst st0), snd st0)) of
              Inl st2 \<Rightarrow> ([], st2)
            | Inr st2 \<Rightarrow>
                (case run_workflows w cfg submits_dir workflow_dir rsubmits_dir rworkflow_dir 0
                        (Workflow problem) [] (persist (SetStatus ''run_workflow'' (fst st2), snd st2)) of
                   Inl (defers, st3) \<Rightarrow> (defers, st3)
                 | Inr (defers, st3) \<Rightarrow> (defers, collect_result w workflow_dir st3))))"

text \<open>
  \<open>RunJudge\<close>: at the return the deferred calls run, the newest first: the cleanups of
  the containers, then the closing of \<open>Running\<close> and the last \<open>UpdateSubmit\<close>.
\<close>

definition RunJudge :: "world \<Rightarrow> Config \<Rightarrow> SubmitCtx \<Rightarrow> Problem \<Rightarrow> jstate" where
  "RunJudge w cfg ctx problem =
     (let (defers, st) = judge_body w cfg ctx problem
      in (fst st, snd st @ map Clean defers @ [CloseRunning, Persist (persisted (fst st))]))"

text \<open>The SubmitCtx that \<open>handleSubmit\<close> (main.go) builds for an accepted submission.\<close>

definition handleSubmit_ctx :: "world \<Rightarrow> Config \<Rightarrow> string \<Rightarrow> string \<Rightarrow> int \<Rightarrow> SubmitCtx" where
  "handleSubmit_ctx w cfg user pid subtime =
     \<lparr>ID = Itoa subtime, User = user, Problem = pid, SubmitTime = subtime,
      Status = ''init'', Msg = [],
      SubmitDir = path_Join w (path_Join w (SubmitsDir cfg) user) pid,
      SubmitsHashes = [],
      Workdir = path_Join w (SubmitWorkDir cfg) (Itoa subtime),
      WorkflowResults = [], JudgeResult = zero_JudgeResult,
      RealWorkdir = path_Join w (RealSubmitWorkDir cfg) (Itoa subtime)\<rparr>"

section \<open>Userface.Write (types/types.go)\<close>

text \<open>
  A Userface is a pointer to a buffer, which may be nil, and an optional live sink.
  The sink answers a write with the number of bytes it took and whether it failed.
  \<open>inner_Write\<close> is what \<open>_f.Write(p)\<close> returns: the buffer takes every byte, and
  \<open>io.MultiWriter\<close> then offers the bytes to the sink and reports its error or a short
  write.
\<close>

record Userface =
  Buffer :: "string option"
  Writer :: "(string \<Rightarrow> nat \<times> bool) option"

datatype panic = NilPointerDereference

definition inner_Write :: "Userface \<Rightarrow> string \<Rightarrow> nat \<times> bool" where
  "inner_Write f p =
     (case Writer f of
        None \<Rightarrow> (length p, False)
      | Some sink \<Rightarrow>
          (let (n, err) = sink p
           in if err then (n, True)
              else if n \<noteq> length p then (n, True)
              else (length p, False)))"

definition Userface_Write :: "Userface \<Rightarrow> string \<Rightarrow> panic + ((nat \<times> bool) \<times> Userface)" where
  "Userface_Write f p =
     (case Buffer f of
        None \<Rightarrow> Inl NilPointerDereference
      | Some b \<Rightarrow>
          (let r = inner_Write f p
           in Inr ((length p, False), f\<lparr>Buffer := Some (b @ p)\<rparr>)))"

section \<open>Concrete inputs\<close>

text \<open>
  A world in which every call succeeds, except that the shell command \<open>false\<close> exits
  with code 1; the result file parses to a successful verdict of score 80.
\<close>

definition w0 :: world where
  "w0 = \<lparr>os_fail = (\<lambda>tr c. False),
         io_Copy = (\<lambda>tr src dst. Some ''5d41402abc4b2a76b9719d911017c592''),
         WalkDir = (\<lambda>tr p. []),
         RunImage = (\<lambda>tr a. (True, ''c'' @ r_name a)),
         ExecContainer = (\<lambda>tr a. if x_cmd a = ''false'' then (1, [], False) else (0, [], False)),
         GetContainerLogs = (\<lambda>tr cid. ([], False)),
         ReadFile = (\<lambda>tr p. Some ''{}''),
         json_Unmarshal = (\<lambda>b jr. (False, jr\<lparr>Success := True, Score := 80, JMsg := ''ok''\<rparr>)),
         path_Join = (\<lambda>a b. a @ ''/'' @ b),
         path_Dir = (\<lambda>p. rev (tl (dropWhile (\<lambda>c. c \<noteq> CHR ''/'') (rev p)))),
         filepath_Rel = (\<lambda>base p. drop (length base + 1) p)\<rparr>"

text \<open>The same world with a source file that cannot be opened.\<close>

definition w_noopen :: world where
  "w_noopen = w0\<lparr>os_fail := (\<lambda>tr c. case c of Open p \<Rightarrow> True | _ \<Rightarrow> False)\<rparr>"

definition cfg0 :: Config where
  "cfg0 = \<lparr>SubmitsDir = ''/s'', SubmitWorkDir = ''/w'', RealSubmitWorkDir = ''/r'',
           SubmitGid = 1000, SubmitUid = 1000\<rparr>"

definition wf_hello :: Workflow where
  "wf_hello = \<lparr>Image = ''python:3'', Steps = [''python /submits/main.py'', ''true''],
               Timeout = 10, Root = False, DisableNetwork = False, Show = [1],
               PrivilegedSteps = [], NetworkHostMode = False, Mounts = []\<rparr>"

definition hello :: Problem where
  "hello = \<lparr>Version = 1, Id = ''hello'', Text = [], Weight = 2,
            Submits = [\<lparr>Path = ''main.py'', IsDir = False\<rparr>], Workflow = [wf_hello]\<rparr>"

text \<open>The problem of scenario S2: the first step is \<open>false\<close>.\<close>

definition hello_S2 :: Problem where
  "hello_S2 = hello\<lparr>Workflow := [wf_hello\<lparr>Steps := [''false'', ''true'']\<rparr>]\<rparr>"

definition ctx0 :: SubmitCtx where
  "ctx0 = handleSubmit_ctx w0 cfg0 ''alice'' ''hello'' 17"

text \<open>Submissions of alice to \<open>hello\<close> as the store holds them: two with score 50
  (scenario S5) and one with score 0, all completed and successful.\<close>

definition sub1 :: SubmitCtx where
  "sub1 = \<lparr>ID = ''1'', User = ''alice'', Problem = ''hello'', SubmitTime = 1,
           Status = ''completed'', Msg = ''judge successfully finished'', SubmitDir = [],
           SubmitsHashes = [], Workdir = [], WorkflowResults = [],
           JudgeResult = \<lparr>Success = True, Score = 50, JMsg = ''ok'', Memory = 0, Time = 0\<rparr>,
           RealWorkdir = []\<rparr>"

definition sub2 :: SubmitCtx where
  "sub2 = sub1\<lparr>ID := ''2'', SubmitTime := 2\<rparr>"

definition sub_zero :: SubmitCtx where
  "sub_zero = sub1\<lparr>ID := ''3'', SubmitTime := 3,
                   JudgeResult := \<lparr>Success = True, Score = 0, JMsg = ''ok'', Memory = 0, Time = 0\<rparr>\<rparr>"

definition alice0 :: User where
  "alice0 = \<lparr>UserID = ''alice'', Token = ''t'', BestScores = fmempty, BestSubmits = fmempty,
             BestSubmitDate = fmempty, TotalScore = 0\<rparr>"

definition problems0 :: "string \<rightharpoonup> Problem" where
  "problems0 = [''hello'' \<mapsto> hello]"

definition store0 :: Store where
  "store0 = \<lparr>users = Map.empty, submits = []\<rparr>"

section \<open>Stores the program can reach\<close>

text \<open>
  The stores that the operations of the database service produce from the empty
  database. Every write to the submission table (creating, updating, deleting and
  reaping rows) is covered by \<open>rows_written\<close>; the other rules are the operations that
  save a User.
\<close>

inductive reachable :: "Store \<Rightarrow> bool" where
  empty_db: "reachable \<lparr>users = Map.empty, submits = []\<rparr>"
| rows_written: "reachable st \<Longrightarrow> reachable (st\<lparr>submits := rows\<rparr>)"
| user_fetched: "reachable st \<Longrightarrow> reachable (snd (GetUserByID tok userID st))"
| incremental: "reachable st \<Longrightarrow> reachable (UpdateUserSubmitResult tok userID submit problem st)"
| full_rescan: "reachable st \<Longrightarrow> DoFullUserScan problems st = Inr st' \<Longrightarrow> reachable st'"
| targeted_rescan:
    "reachable st \<Longrightarrow> reachable (RecalculateUserBestScoresWithProblems tok userID problems st)"
| rescored:
    "reachable st \<Longrightarrow> ModifySubmissionResult tok submitID score message problems st = Inr st'
       \<Longrightarrow> reachable st'"

definition total_ok :: "User \<Rightarrow> bool" where
  "total_ok u = (TotalScore u = sum_values (BestScores u))"

definition store_ok :: "Store \<Rightarrow> bool" where
  "store_ok st = (\<forall>k u. users st k = Some u \<longrightarrow> total_ok u)"

text \<open>Scenario S6: a row left in the middle of a workflow by a crash.\<close>

definition store_S6 :: Store where
  "store_S6 = \<lparr>users = Map.empty, submits = [sub1\<lparr>Status := ''run_workflow-0_2''\<rparr>, sub2]\<rparr>"

text \<open>A Userface whose live sink takes nothing and fails.\<close>

definition uf_broken_sink :: Userface where
  "uf_broken_sink = \<lparr>Buffer = Some ''abc'', Writer = Some (\<lambda>p. (0, True))\<rparr>"

text \<open>Every row of the user table carries its key as its \<open>UserID\<close>.\<close>

definition keys_ok :: "Store \<Rightarrow> bool" where
  "keys_ok st = (\<forall>k u. users st k = Some u \<longrightarrow> UserID u = k)"

text \<open>A store in which alice has no best entry and one completed, successful
  submission of score 0.\<close>

definition store_zero :: Store where
  "store_zero = \<lparr>users = [''alice'' \<mapsto> alice0], submits = [sub_zero]\<rparr>"

text \<open>Scenario S5 in the store: both submissions of score 50.\<close>

definition store_S5 :: Store where
  "store_S5 = \<lparr>users = [''alice'' \<mapsto> alice0], submits = [sub1, sub2]\<rparr>"

definition alice_S5 :: User where
  "alice_S5 = \<lparr>UserID = ''alice'', Token = ''t'', BestScores = fmupd ''hello'' 100 fmempty,
               BestSubmits = fmupd ''hello'' ''1'' fmempty,
               BestSubmitDate = fmupd ''hello'' 1 fmempty, TotalScore = 100\<rparr>"

text \<open>
  What a recomputation from a set \<open>S\<close> of submissions is expected to leave in a User:
  every entry of the best maps comes from a successful submission of \<open>S\<close> to a known
  problem, with its weighted score and its date; no successful submission of \<open>S\<close> to a
  known problem scores more than the entry of its problem; and the three maps have
  the same keys.
\<close>

definition best_of :: "(string \<rightharpoonup> Problem) \<Rightarrow> SubmitCtx set \<Rightarrow> User \<Rightarrow> bool" where
  "best_of problems S u =
     ((\<forall>p sid. fmlookup (BestSubmits u) p = Some sid \<longrightarrow>
         (\<exists>s\<in>S. \<exists>pr. ID s = sid \<and> Problem s = p \<and> Success (JudgeResult s)
            \<and> problems p = Some pr
            \<and> fmlookup (BestScores u) p = Some (Score (JudgeResult s) * Weight pr)
            \<and> fmlookup (BestSubmitDate u) p = Some (SubmitTime s)))
    \<and> (\<forall>s\<in>S. \<forall>pr. Success (JudgeResult s) \<longrightarrow> problems (Problem s) = Some pr \<longrightarrow>
         (\<exists>b. fmlookup (BestScores u) (Problem s) = Some b
               \<and> Score (JudgeResult s) * Weight pr \<le> b))
    \<and> fmdom (BestScores u) = fmdom (BestSubmits u)
    \<and> fmdom (BestSubmitDate u) = fmdom (BestSubmits u))"

text \<open>The store of scenario S5 after the aggregator has seen the first submission.\<close>

definition store_S5_scored :: Store where
  "store_S5_scored = \<lparr>users = [''alice'' \<mapsto> alice_S5], submits = [sub1, sub2]\<rparr>"

section \<open>Reading a trace\<close>

text \<open>An execution of a step that returned a non-zero exit code or an error.\<close>

fun bad_exec :: "event \<Rightarrow> bool" where
  "bad_exec (Exec i j a ec logs err) = (ec \<noteq> 0 \<or> err)"
| "bad_exec e = False"

text \<open>The events in which a step or a workflow is started.\<close>

fun starts_work :: "event \<Rightarrow> bool" where
  "starts_work (Exec i j a ec logs err) = True"
| "starts_work (Run a ok cid) = True"
| "starts_work e = False"


text \<open>The message of a failed step, with both indices counted from 1.\<close>

definition step_msg :: "nat \<Rightarrow> nat \<Rightarrow> string" where
  "step_msg idx sidx =
     ''failed to run judge '' @ Itoa (int idx + 1) @ '' step '' @ Itoa (int sidx + 1)"

text \<open>A trace without a failed step, and a state whose trace ends in a failed step of
  one of the containers \<open>cids\<close>, recorded in the status and the message.\<close>

definition good :: "event list \<Rightarrow> bool" where
  "good tr = (\<forall>e\<in>set tr. \<not> bad_exec e)"

definition failed_at_step :: "string list \<Rightarrow> jstate \<Rightarrow> bool" where
  "failed_at_step cids st =
     (\<exists>pre i j a ec logs err.
        snd st = pre @ [Exec i j a ec logs err, Persist (persisted (fst st))]
      \<and> good pre \<and> (ec \<noteq> 0 \<or> err) \<and> x_id a \<in> set cids
      \<and> Status (fst st) = ''failed'' \<and> Msg (fst st) = step_msg i j)"

text \<open>What a completed workflow leaves in \<open>WorkflowResults\<close>: one result per step, each
  with exit code 0.\<close>

definition result_of :: "WorkflowResult \<Rightarrow> Workflow \<Rightarrow> bool" where
  "result_of wr wflow =
     (WfSuccess wr \<and> length (WfSteps wr) = length (Steps wflow)
      \<and> list_all (\<lambda>sr. StepExitCode sr = 0) (WfSteps wr))"





section \<open>Auxiliary facts about the aggregator\<close>

lemma sum_values_single: "sum_values (fmupd k v fmempty) = v"
  by (simp add: sum_values_def)

lemmas agg_defs = UpdateUserSubmitResult_def update_body_def GetUserByID_def CreateUser_def UpdateUser_def
  CalculateTotalScore_def install_def index0_def DoFullUserScan_def scan_body_def
  RecalculateUserBestScoresWithProblems_def recalc_body_def Let_def

lemmas example_defs = sub1_def sub2_def sub_zero_def alice0_def problems0_def store0_def
  hello_def store_zero_def store_S5_def alice_S5_def

lemma index0_install:
  "index0 (BestScores (install s v u)) p = (if p = Problem s then v else index0 (BestScores u) p)"
  by (simp add: install_def index0_def)

lemma Calculate_idem [simp]: "CalculateTotalScore (CalculateTotalScore u) = CalculateTotalScore u"
  by (simp add: CalculateTotalScore_def)

lemma Calculate_fields [simp]:
  "BestScores (CalculateTotalScore u) = BestScores u"
  "BestSubmits (CalculateTotalScore u) = BestSubmits u"
  "BestSubmitDate (CalculateTotalScore u) = BestSubmitDate u"
  "UserID (CalculateTotalScore u) = UserID u"
  "Token (CalculateTotalScore u) = Token u"
  by (simp_all add: CalculateTotalScore_def)

lemma install_fields [simp]:
  "UserID (install s v u) = UserID u" "Token (install s v u) = Token u"
  "TotalScore (install s v u) = TotalScore u"
  by (simp_all add: install_def)

lemma scan_body_fields [simp]:
  "UserID (scan_body ps s u) = UserID u" "Token (scan_body ps s u) = Token u"
  "TotalScore (scan_body ps s u) = TotalScore u"
  by (simp_all add: scan_body_def Let_def split: option.splits)


lemma scan_body_mono: "index0 (BestScores u) p \<le> index0 (BestScores (scan_body ps s u)) p"
  by (simp add: scan_body_def Let_def index0_install split: option.splits)

lemma scan_body_settles: "scan_body ps s (scan_body ps s u) = scan_body ps s u"
  by (simp add: scan_body_def Let_def index0_install split: option.splits)

lemma scan_body_stays:
  assumes "scan_body ps s u = u" "\<And>p. index0 (BestScores u) p \<le> index0 (BestScores u') p"
  shows "scan_body ps s u' = u'"
proof -
  have "\<not> (Status s = ''completed'' \<and> Success (JudgeResult s) \<and> (\<exists>pr. ps (Problem s) = Some pr \<and>
           index0 (BestScores u) (Problem s) < Score (JudgeResult s) * Weight pr))"
  proof
    assume h: "Status s = ''completed'' \<and> Success (JudgeResult s) \<and> (\<exists>pr. ps (Problem s) = Some pr \<and>
           index0 (BestScores u) (Problem s) < Score (JudgeResult s) * Weight pr)"
    then obtain pr where pr: "ps (Problem s) = Some pr"
      "index0 (BestScores u) (Problem s) < Score (JudgeResult s) * Weight pr" by blast
    with h have "scan_body ps s u = install s (Score (JudgeResult s) * Weight pr) u"
      by (simp add: scan_body_def Let_def)
    then have "index0 (BestScores (scan_body ps s u)) (Problem s) = Score (JudgeResult s) * Weight pr"
      by (simp add: index0_install)
    with assms(1) pr(2) show False by simp
  qed
  then have "\<not> (Status s = ''completed'' \<and> Success (JudgeResult s) \<and> (\<exists>pr. ps (Problem s) = Some pr \<and>
           index0 (BestScores u') (Problem s) < Score (JudgeResult s) * Weight pr))"
    using assms(2)[of "Problem s"] by (meson le_less_trans not_le order.strict_trans1)
  then show ?thesis
    by (auto simp: scan_body_def Let_def split: option.splits)
qed

text \<open>One pass of the loop: keys stay, best scores only grow, and every submission is
  settled in the final map.\<close>

lemma scan_loop_props:
  "scan_loop ps ss um = Inr um' \<Longrightarrow>
     dom um' = dom um
   \<and> (\<forall>k u. um k = Some u \<longrightarrow> (\<exists>u'. um' k = Some u' \<and> UserID u' = UserID u \<and> Token u' = Token u
         \<and> TotalScore u' = TotalScore u \<and> (\<forall>p. index0 (BestScores u) p \<le> index0 (BestScores u') p)))
   \<and> (\<forall>s\<in>set ss. \<exists>u'. um' (User s) = Some u' \<and> scan_body ps s u' = u')"
proof (induction ss arbitrary: um)
  case Nil
  then show ?case by auto
next
  case (Cons s ss)
  from Cons.prems obtain u where u: "um (User s) = Some u"
    and rest: "scan_loop ps ss (um(User s \<mapsto> scan_body ps s u)) = Inr um'"
    by (auto split: option.splits)
  let ?um1 = "um(User s \<mapsto> scan_body ps s u)"
  from Cons.IH[OF rest] have
    d: "dom um' = dom ?um1" and
    m: "\<forall>k u. ?um1 k = Some u \<longrightarrow> (\<exists>u'. um' k = Some u' \<and> UserID u' = UserID u \<and> Token u' = Token u
         \<and> TotalScore u' = TotalScore u \<and> (\<forall>p. index0 (BestScores u) p \<le> index0 (BestScores u') p))" and
    t: "\<forall>s\<in>set ss. \<exists>u'. um' (User s) = Some u' \<and> scan_body ps s u' = u'"
    by blast+
  have d': "dom um' = dom um" using d u by auto
  have m': "\<forall>k v. um k = Some v \<longrightarrow> (\<exists>u'. um' k = Some u' \<and> UserID u' = UserID v \<and> Token u' = Token v
         \<and> TotalScore u' = TotalScore v \<and> (\<forall>p. index0 (BestScores v) p \<le> index0 (BestScores u') p))"
  proof (intro allI impI)
    fix k v assume kv: "um k = Some v"
    show "\<exists>u'. um' k = Some u' \<and> UserID u' = UserID v \<and> Token u' = Token v
         \<and> TotalScore u' = TotalScore v \<and> (\<forall>p. index0 (BestScores v) p \<le> index0 (BestScores u') p)"
    proof (cases "k = User s")
      case True
      with kv u have vu: "v = u" by simp
      from m[rule_format, of "User s" "scan_body ps s u"] obtain u' where
        "um' (User s) = Some u'" "UserID u' = UserID u" "Token u' = Token u" "TotalScore u' = TotalScore u"
        "\<forall>p. index0 (BestScores (scan_body ps s u)) p \<le> index0 (BestScores u') p"
        by auto
      moreover have "\<And>p. index0 (BestScores u) p \<le> index0 (BestScores (scan_body ps s u)) p"
        by (rule scan_body_mono)
      ultimately show ?thesis using True vu by (metis order_trans)
    next
      case False
      with kv m[rule_format, of k v] show ?thesis by simp
    qed
  qed
  have s': "\<exists>u'. um' (User s) = Some u' \<and> scan_body ps s u' = u'"
  proof -
    from m[rule_format, of "User s" "scan_body ps s u"] obtain u' where
      u': "um' (User s) = Some u'"
      "\<forall>p. index0 (BestScores (scan_body ps s u)) p \<le> index0 (BestScores u') p"
      by auto
    have "scan_body ps s u' = u'"
      by (rule scan_body_stays[OF scan_body_settles[of ps s u]]) (use u'(2) in blast)
    with u' show ?thesis by blast
  qed
  from d' m' s' t show ?case by auto
qed



lemma keys_ok_UpdateUser: "keys_ok st \<Longrightarrow> keys_ok (UpdateUser u st)"
  by (simp add: keys_ok_def UpdateUser_def Let_def)

lemma keys_ok_GetUserByID: "keys_ok st \<Longrightarrow> keys_ok (snd (GetUserByID tok userID st))"
  by (auto simp: keys_ok_def GetUserByID_def CreateUser_def Let_def split: option.splits if_splits)

lemma GetUserByID_UserID: "keys_ok st \<Longrightarrow> UserID (fst (GetUserByID tok userID st)) = userID"
  by (auto simp: keys_ok_def GetUserByID_def CreateUser_def Let_def split: option.splits)

lemma GetUserByID_lookup:
  "users (snd (GetUserByID tok userID st)) userID = Some (fst (GetUserByID tok userID st))"
  by (auto simp: GetUserByID_def CreateUser_def Let_def split: option.splits)

lemma GetUserByID_submits [simp]: "submits (snd (GetUserByID tok userID st)) = submits st"
  by (auto simp: GetUserByID_def CreateUser_def Let_def split: option.splits)

lemma GetUserByID_present:
  "users st userID = Some u \<Longrightarrow> GetUserByID tok userID st = (u, st)"
  by (simp add: GetUserByID_def)

lemma UpdateUser_submits [simp]: "submits (UpdateUser u st) = submits st"
  by (simp add: UpdateUser_def Let_def)

lemma keys_ok_rows [simp]: "keys_ok (st\<lparr>submits := rows\<rparr>) = keys_ok st"
  by (simp add: keys_ok_def)

lemma keys_ok_UpdateSubmit [simp]: "keys_ok (UpdateSubmit s st) = keys_ok st"
  by (simp add: UpdateSubmit_def keys_ok_def)

lemma keys_ok_incremental:
  "keys_ok st \<Longrightarrow> keys_ok (UpdateUserSubmitResult tok userID submit problem st)"
  unfolding UpdateUserSubmitResult_def
  by (simp add: case_prod_unfold keys_ok_UpdateUser keys_ok_GetUserByID Let_def)

lemma keys_ok_targeted:
  "keys_ok st \<Longrightarrow> keys_ok (RecalculateUserBestScoresWithProblems tok userID problems st)"
  unfolding RecalculateUserBestScoresWithProblems_def
  by (simp add: case_prod_unfold keys_ok_UpdateUser keys_ok_GetUserByID Let_def)

lemma keys_ok_full:
  assumes "keys_ok st" "DoFullUserScan problems st = Inr st'"
  shows "keys_ok st'"
proof -
  from assms(2) obtain um where um: "scan_loop problems (submits st) (users st) = Inr um"
    and st': "st' = st\<lparr>users := (\<lambda>k. map_option CalculateTotalScore (um k))\<rparr>"
    by (auto simp: DoFullUserScan_def split: sum.splits)
  from scan_loop_props[OF um] have d: "dom um = dom (users st)"
    and m: "\<forall>k u. users st k = Some u \<longrightarrow> (\<exists>u'. um k = Some u' \<and> UserID u' = UserID u)"
    by blast+
  show ?thesis
    unfolding keys_ok_def
  proof (intro allI impI)
    fix k u assume "users st' k = Some u"
    then obtain v where v: "um k = Some v" "u = CalculateTotalScore v"
      by (auto simp: st')
    then have "k \<in> dom (users st)" using d by auto
    then obtain u0 where u0: "users st k = Some u0" by auto
    with m v have "UserID v = UserID u0" by fastforce
    with u0 assms(1) v show "UserID u = k" by (simp add: keys_ok_def)
  qed
qed

lemma keys_ok_rescored:
  "keys_ok st \<Longrightarrow> ModifySubmissionResult tok submitID score message problems st = Inr st'
     \<Longrightarrow> keys_ok st'"
  by (auto simp: ModifySubmissionResult_def Let_def keys_ok_targeted split: option.splits)

lemma reachable_keys_ok: "reachable st \<Longrightarrow> keys_ok st"
proof (induction rule: reachable.induct)
  case empty_db
  show ?case by (simp add: keys_ok_def)
next
  case (rows_written st rows)
  then show ?case by simp
next
  case (user_fetched st tok userID)
  then show ?case by (simp add: keys_ok_GetUserByID)
next
  case (incremental st tok userID submit problem)
  then show ?case by (simp add: keys_ok_incremental)
next
  case (full_rescan st problems st')
  then show ?case by (simp add: keys_ok_full)
next
  case (targeted_rescan st tok userID problems)
  then show ?case by (simp add: keys_ok_targeted)
next
  case (rescored st tok submitID score message problems st')
  then show ?case by (simp add: keys_ok_rescored)
qed

lemma UpdateUser_same:
  "users st (UserID u) = Some u \<Longrightarrow> CalculateTotalScore u = u \<Longrightarrow> UpdateUser u st = st"
  by (simp add: UpdateUser_def Let_def fun_upd_idem)

section \<open>Auxiliary facts about the judge\<close>

lemma persist_fst [simp]: "fst (persist st) = fst st"
  by (simp add: persist_def)

lemma persist_snd [simp]: "snd (persist st) = snd st @ [Persist (persisted (fst st))]"
  by (simp add: persist_def)

lemma fail_with_fst [simp]: "fst (fail_with msg st) = (fst st)\<lparr>Status := ''failed'', Msg := msg\<rparr>"
  by (simp add: fail_with_def SetStatus_def SetMsg_def)

lemma fail_with_snd [simp]:
  "snd (fail_with msg st) = snd st @ [Persist (persisted ((fst st)\<lparr>Status := ''failed'', Msg := msg\<rparr>))]"
  by (simp add: fail_with_def SetStatus_def SetMsg_def)

lemma good_simps [simp]:
  "good []" "good (tr @ tr') = (good tr \<and> good tr')" "good (e # tr) = (\<not> bad_exec e \<and> good tr)"
  by (auto simp: good_def)

lemma os_call_snd: "snd (os_call w tr c) = tr @ [OS c (fst (os_call w tr c))]"
  by (simp add: os_call_def Let_def)

lemma os_call_good [simp]: "good (snd (os_call w tr c)) = good tr"
  by (simp add: os_call_snd)

lemma try_all_good [simp]: "good (snd (try_all w cs tr)) = good tr"
  by (induction cs arbitrary: tr) (simp_all add: case_prod_unfold Let_def)

lemma copyFile_good [simp]: "good (snd (copyFile w tr src dst)) = good tr"
  by (simp add: copyFile_def case_prod_unfold Let_def split: option.splits)

lemma submitFile_good [simp]: "good (snd (snd (submitFile w cfg d p st))) = good (snd st)"
  by (simp add: submitFile_def case_prod_unfold Let_def split: option.splits)

lemma submitFile_ctx:
  "Status (fst (snd (submitFile w cfg d p st))) = Status (fst st)"
  "Msg (fst (snd (submitFile w cfg d p st))) = Msg (fst st)"
  "WorkflowResults (fst (snd (submitFile w cfg d p st))) = WorkflowResults (fst st)"
  "SubmitDir (fst (snd (submitFile w cfg d p st))) = SubmitDir (fst st)"
  by (simp_all add: submitFile_def case_prod_unfold Let_def split: option.splits)

lemma walk_loop_good [simp]:
  "good (snd (snd (walk_loop w cfg d dp decl items st))) = good (snd st)"
proof (induction items arbitrary: st)
  case Nil
  show ?case by simp
next
  case (Cons it items)
  obtain p isdir werr where it: "it = (p, isdir, werr)" by (cases it)
  show ?case unfolding it by (simp add: case_prod_unfold Let_def Cons.IH)
qed

lemma walk_loop_ctx:
  "WorkflowResults (fst (snd (walk_loop w cfg d dp decl items st))) = WorkflowResults (fst st)"
proof (induction items arbitrary: st)
  case Nil
  show ?case by simp
next
  case (Cons it items)
  obtain p isdir werr where it: "it = (p, isdir, werr)" by (cases it)
  show ?case unfolding it by (simp add: case_prod_unfold Let_def Cons.IH submitFile_ctx)
qed

lemma stage_entry_good [simp]: "good (snd (snd (stage_entry w cfg d s st))) = good (snd st)"
  by (simp add: stage_entry_def Let_def)

lemma stage_entry_ctx:
  "WorkflowResults (fst (snd (stage_entry w cfg d s st))) = WorkflowResults (fst st)"
  by (simp add: stage_entry_def Let_def walk_loop_ctx submitFile_ctx)

lemma stage_loop_props:
  "stage_loop w cfg d ss st = Inr st' \<Longrightarrow>
     good (snd st') = good (snd st) \<and> WorkflowResults (fst st') = WorkflowResults (fst st)"
  "stage_loop w cfg d ss st = Inl st' \<Longrightarrow>
     good (snd st') = good (snd st) \<and> Status (fst st') = ''failed''"
  by (induction ss arbitrary: st)
     (auto simp: case_prod_unfold Let_def stage_entry_ctx split: if_splits)


declare run_steps.simps(2) [simp del] run_workflows.simps(2) [simp del]

lemma failed_at_step_mono: "failed_at_step cids st \<Longrightarrow> set cids \<subseteq> set cids' \<Longrightarrow> failed_at_step cids' st"
  unfolding failed_at_step_def by blast

lemma failed_at_step_Status: "failed_at_step cids st \<Longrightarrow> Status (fst st) = ''failed''"
  unfolding failed_at_step_def by blast

lemma run_steps_props:
  "good (snd st) \<Longrightarrow> list_all (\<lambda>sr. StepExitCode sr = 0) arr \<Longrightarrow>
   (\<forall>r. run_steps w cid wflow envs idx sidx ss arr st = Inr r \<longrightarrow>
       good (snd (snd r)) \<and> WorkflowResults (fst (snd r)) = WorkflowResults (fst st)
     \<and> length (fst r) = length arr \<and> list_all (\<lambda>sr. StepExitCode sr = 0) (fst r))
 \<and> (\<forall>st'. run_steps w cid wflow envs idx sidx ss arr st = Inl st' \<longrightarrow> failed_at_step [cid] st')"
proof (induction ss arbitrary: sidx arr st)
  case Nil
  then show ?case by auto
next
  case (Cons step rest)
  define st1 where
    "st1 = persist (SetStatus (''run_workflow-'' @ Itoa (int idx) @ ''_'' @ Itoa (int sidx)) (fst st), snd st)"
  define args where
    "args = \<lparr>x_id = cid, x_cmd = step, x_timeout = Timeout wflow,
             x_show = (int sidx + 1 \<in> set (Show wflow)), x_env = envs,
             x_privileged = (int sidx + 1 \<in> set (PrivilegedSteps wflow))\<rparr>"
  obtain ec logs err where ex: "ExecContainer w (snd st1) args = (ec, logs, err)"
    by (cases "ExecContainer w (snd st1) args") auto
  define st2 where "st2 = (fst st1, snd st1 @ [Exec idx sidx args ec logs err])"
  have unf: "run_steps w cid wflow envs idx sidx (step # rest) arr st =
      (if ec \<noteq> 0 \<or> err then Inl (fail_with (step_msg idx sidx) st2)
       else run_steps w cid wflow envs idx (sidx + 1) rest
              (arr[sidx := \<lparr>StepLogs = logs, StepExitCode = ec\<rparr>]) (persist st2))"
    using ex by (simp add: run_steps.simps(2) st1_def args_def st2_def Let_def step_msg_def)
  have g1: "good (snd st1)" using Cons.prems(1) by (simp add: st1_def)
  have wr1: "WorkflowResults (fst st1) = WorkflowResults (fst st)"
    by (simp add: st1_def SetStatus_def)
  show ?case
  proof (cases "ec \<noteq> 0 \<or> err")
    case True
    have "failed_at_step [cid] (fail_with (step_msg idx sidx) st2)"
      unfolding failed_at_step_def
      apply (rule exI[of _ "snd st1"], rule exI[of _ idx], rule exI[of _ sidx], rule exI[of _ args])
      apply (rule exI[of _ ec], rule exI[of _ logs], rule exI[of _ err])
      using True g1 by (simp add: st2_def args_def)
    with True show ?thesis by (simp add: unf)
  next
    case False
    then have ec0: "ec = 0" and noerr: "\<not> err" by simp_all
    have g2: "good (snd (persist st2))" using g1 ec0 noerr by (simp add: st2_def)
    have a2: "list_all (\<lambda>sr. StepExitCode sr = 0) (arr[sidx := \<lparr>StepLogs = logs, StepExitCode = ec\<rparr>])"
      using Cons.prems(2) ec0 set_update_subset_insert[of arr sidx "\<lparr>StepLogs = logs, StepExitCode = ec\<rparr>"]
      by (auto simp: list_all_iff)
    have wr2: "WorkflowResults (fst (persist st2)) = WorkflowResults (fst st)"
      by (simp add: st2_def wr1)
    from Cons.IH[OF g2 a2, of "sidx + 1"] wr2 False show ?thesis
      by (simp add: unf)
  qed
qed

lemma Status_fail_with [simp]: "Status (fst (fail_with msg st)) = ''failed''"
  by simp

lemma fail_with_good [simp]: "good (snd (fail_with msg st)) = good (snd st)"
  by simp

lemma run_workflows_props:
  "good (snd st) \<Longrightarrow>
   (\<forall>r. run_workflows w cfg sd wd rsd rwd idx wfs defers st = Inr r \<longrightarrow>
       good (snd (snd r))
     \<and> (\<exists>rs. WorkflowResults (fst (snd r)) = WorkflowResults (fst st) @ rs
             \<and> list_all2 result_of rs wfs))
 \<and> (\<forall>r. run_workflows w cfg sd wd rsd rwd idx wfs defers st = Inl r \<longrightarrow>
       Status (fst (snd r)) = ''failed'' \<and> (good (snd (snd r)) \<or> failed_at_step (fst r) (snd r)))"
proof (induction wfs arbitrary: idx defers st)
  case Nil
  then show ?case by auto
next
  case (Cons wflow rest)
  define mount_list where
    "mount_list = [\<lparr>MType = ''bind'', Source = sd, Target = ''/submits'', ReadOnly = True\<rparr>,
             \<lparr>MType = ''bind'', Source = wd, Target = ''/work'', ReadOnly = False\<rparr>]
            @ map (\<lambda>mnt. \<lparr>MType = MType mnt, Source = Source mnt, Target = Target mnt,
                            ReadOnly = ReadOnly mnt\<rparr>) (Mounts wflow)"
  define envs where
    "envs = [''SOJ_SUBMITS_DIR=/submits'',
             ''SOJ_WORK_DIR=/work'',
             ''SOJ_REAL_WORKDIR='' @ rwd,
             ''SOJ_REAL_SUBMITDIR='' @ rsd,
             ''SOJ_PROBLEM='' @ Problem (fst st),
             ''SOJ_SUBMIT='' @ ID (fst st),
             ''SOJ_WORK_UID='' @ Itoa (SubmitUid cfg),
             ''SOJ_WORK_GID='' @ Itoa (SubmitGid cfg)]"
  define st1 where "st1 = persist (SetStatus (''run_workflow-'' @ Itoa (int idx)) (fst st), snd st)"
  define args where
    "args = \<lparr>r_name = ''soj-judge-'' @ ID (fst st) @ ''-'' @ Itoa (int idx + 1),
                  r_user = (if Root wflow then ''0'' else Itoa (SubmitUid cfg)),
                  r_hostname = ''soj-judgement'', r_image = Image wflow,
                  r_workdir = ''/work'', r_mounts = mount_list, r_mask = False,
                  r_readonly_rootfs = False, r_networkdisabled = DisableNetwork wflow,
                  r_timeout = Timeout wflow, r_networkhosted = NetworkHostMode wflow,
                  r_env = envs\<rparr>"
  obtain ok cid where run: "RunImage w (snd st1) args = (ok, cid)"
    by (cases "RunImage w (snd st1) args") auto
  define st2 where "st2 = (fst st1, snd st1 @ [Run args ok cid])"
  define steps_result where
    "steps_result = run_steps w cid wflow envs idx 0 (Steps wflow)
                      (replicate (length (Steps wflow)) zero_step) st2"
  have unf: "run_workflows w cfg sd wd rsd rwd idx (wflow # rest) defers st =
     (if \<not> ok then Inl (defers, fail_with ''failed to run judge container'' st2)
      else
        (case steps_result of
           Inl st3 \<Rightarrow> Inl (cid # defers, st3)
         | Inr (steps, st3) \<Rightarrow>
             (let (logs, err) = GetContainerLogs w (snd st3) cid;
                  st4 = (fst st3, snd st3 @ [Logs cid logs err])
              in if err then Inl (cid # defers, fail_with ''failed to get judge logs'' st4)
                 else run_workflows w cfg sd wd rsd rwd (idx + 1) rest (cid # defers)
                        ((fst st4)\<lparr>WorkflowResults := WorkflowResults (fst st4) @
                            [\<lparr>WfSuccess = True, WfLogs = logs, WfExitCode = 0, WfSteps = steps\<rparr>]\<rparr>,
                         snd st4))))"
    using run
    by (simp add: run_workflows.simps(2) mount_list_def envs_def st1_def args_def st2_def
        steps_result_def Let_def)
  have g2: "good (snd st2)" using Cons.prems by (simp add: st2_def st1_def)
  have wr2: "WorkflowResults (fst st2) = WorkflowResults (fst st)"
    by (simp add: st2_def st1_def SetStatus_def)
  have z: "list_all (\<lambda>sr. StepExitCode sr = 0) (replicate (length (Steps wflow)) zero_step)"
    by (simp add: list_all_iff zero_step_def)
  note steps = run_steps_props[OF g2 z, of w cid wflow envs idx 0 "Steps wflow", folded steps_result_def]
  show ?case
  proof (cases ok)
    case False
    then show ?thesis using g2 by (simp add: unf)
  next
    case True
    show ?thesis
    proof (cases steps_result)
      case (Inl st3)
      with steps have "failed_at_step [cid] st3" by simp
      then have "failed_at_step (cid # defers) st3" "Status (fst st3) = ''failed''"
        by (auto intro: failed_at_step_mono dest: failed_at_step_Status)
      with True Inl show ?thesis by (simp add: unf)
    next
      case (Inr r)
      obtain steps_arr st3 where r: "r = (steps_arr, st3)" by (cases r)
      from steps Inr r have g3: "good (snd st3)"
        and wr3: "WorkflowResults (fst st3) = WorkflowResults (fst st)"
        and len: "length steps_arr = length (Steps wflow)"
        and zero: "list_all (\<lambda>sr. StepExitCode sr = 0) steps_arr"
        by (simp_all add: wr2)
      obtain logs err where lg: "GetContainerLogs w (snd st3) cid = (logs, err)"
        by (cases "GetContainerLogs w (snd st3) cid") auto
      define st4 where "st4 = (fst st3, snd st3 @ [Logs cid logs err])"
      define st5 where "st5 = ((fst st4)\<lparr>WorkflowResults := WorkflowResults (fst st4) @
                            [\<lparr>WfSuccess = True, WfLogs = logs, WfExitCode = 0, WfSteps = steps_arr\<rparr>]\<rparr>,
                         snd st4)"
      have unf2: "run_workflows w cfg sd wd rsd rwd idx (wflow # rest) defers st =
          (if err then Inl (cid # defers, fail_with ''failed to get judge logs'' st4)
           else run_workflows w cfg sd wd rsd rwd (idx + 1) rest (cid # defers) st5)"
        using True Inr r lg by (simp add: unf st4_def st5_def Let_def)
      have g4: "good (snd st4)" using g3 by (simp add: st4_def)
      show ?thesis
      proof (cases err)
        case True
        then show ?thesis using g4 by (simp add: unf2)
      next
        case False
        have g5: "good (snd st5)" using g4 by (simp add: st5_def)
        have wr5: "WorkflowResults (fst st5) = WorkflowResults (fst st) @
             [\<lparr>WfSuccess = True, WfLogs = logs, WfExitCode = 0, WfSteps = steps_arr\<rparr>]"
          by (simp add: st5_def st4_def wr3)
        have ro: "result_of \<lparr>WfSuccess = True, WfLogs = logs, WfExitCode = 0, WfSteps = steps_arr\<rparr> wflow"
          using len zero by (simp add: result_of_def)
        from Cons.IH[OF g5, of "idx + 1" "cid # defers"] False wr5 ro show ?thesis
          by (auto simp: unf2 list_all2_Cons2)
      qed
    qed
  qed
qed


lemma collect_result_props:
  "good (snd (collect_result w wd st)) = good (snd st)"
  "WorkflowResults (fst (collect_result w wd st)) = WorkflowResults (fst st)"
  by (simp_all add: collect_result_def Let_def case_prod_unfold SetStatus_def SetMsg_def
      split: option.splits)

lemma prepare_dirs_props:
  "good (snd (snd (prepare_dirs w cfg ctx)))"
  "WorkflowResults (fst (snd (prepare_dirs w cfg ctx))) = WorkflowResults ctx"
  by (simp_all add: prepare_dirs_def Let_def case_prod_unfold SetStatus_def)

lemma judge_body_props:
  assumes "judge_body w cfg ctx problem = (defers, st')"
  shows "good (snd st') \<or> failed_at_step defers st'"
    and "Status (fst st') = ''completed'' \<Longrightarrow>
           \<exists>rs. WorkflowResults (fst st') = WorkflowResults ctx @ rs
               \<and> list_all2 result_of rs (Workflow problem)"
proof -
  define sd where "sd = path_Join w (Workdir ctx) ''submits''"
  define wd where "wd = path_Join w (Workdir ctx) ''work''"
  define rsd where "rsd = path_Join w (RealWorkdir ctx) ''submits''"
  define rwd where "rwd = path_Join w (RealWorkdir ctx) ''work''"
  obtain err st0 where pd: "prepare_dirs w cfg ctx = (err, st0)"
    by (cases "prepare_dirs w cfg ctx")
  have g0: "good (snd st0)" and wr0: "WorkflowResults (fst st0) = WorkflowResults ctx"
    using prepare_dirs_props[of w cfg ctx] by (simp_all add: pd)
  define st1 where "st1 = persist (SetStatus ''prep_files'' (fst st0), snd st0)"
  have g1: "good (snd st1)" and wr1: "WorkflowResults (fst st1) = WorkflowResults ctx"
    using g0 wr0 by (simp_all add: st1_def SetStatus_def)
  have unf: "judge_body w cfg ctx problem =
      (if err then ([], fail_with ''failed to create submit workdir'' st0)
       else (case stage_loop w cfg sd (Submits problem) st1 of
               Inl st2 \<Rightarrow> ([], st2)
             | Inr st2 \<Rightarrow>
                 (case run_workflows w cfg sd wd rsd rwd 0 (Workflow problem) []
                         (persist (SetStatus ''run_workflow'' (fst st2), snd st2)) of
                    Inl (defers, st3) \<Rightarrow> (defers, st3)
                  | Inr (defers, st3) \<Rightarrow> (defers, collect_result w wd st3))))"
    unfolding sd_def wd_def rsd_def rwd_def st1_def by (simp add: judge_body_def pd Let_def)
  have both: "(good (snd st') \<or> failed_at_step defers st')
     \<and> (Status (fst st') = ''completed'' \<longrightarrow>
           (\<exists>rs. WorkflowResults (fst st') = WorkflowResults ctx @ rs
               \<and> list_all2 result_of rs (Workflow problem)))"
  proof (cases err)
    case True
    with assms unf g0 show ?thesis by auto
  next
    case False
    show ?thesis
    proof (cases "stage_loop w cfg sd (Submits problem) st1")
      case (Inl st2)
      with stage_loop_props(2)[OF Inl] g1 assms unf False show ?thesis by auto
    next
      case (Inr st2)
      from stage_loop_props(1)[OF Inr] g1 wr1
      have g2: "good (snd st2)" and wr2: "WorkflowResults (fst st2) = WorkflowResults ctx" by simp_all
      define st2' where "st2' = persist (SetStatus ''run_workflow'' (fst st2), snd st2)"
      have g2': "good (snd st2')" and wr2': "WorkflowResults (fst st2') = WorkflowResults ctx"
        using g2 wr2 by (simp_all add: st2'_def SetStatus_def)
      note rw = run_workflows_props[OF g2', of w cfg sd wd rsd rwd 0 "Workflow problem" "[]"]
      show ?thesis
      proof (cases "run_workflows w cfg sd wd rsd rwd 0 (Workflow problem) [] st2'")
        case (Inl r)
        obtain d3 st3 where r: "r = (d3, st3)" by (cases r)
        with Inl rw have "Status (fst st3) = ''failed''" "good (snd st3) \<or> failed_at_step d3 st3"
          by simp_all
        moreover have "defers = d3" "st' = st3"
          using assms unf False Inr Inl r by (simp_all add: st2'_def)
        ultimately show ?thesis by simp
      next
        case (Inr r)
        obtain d3 st3 where r: "r = (d3, st3)" by (cases r)
        with Inr rw wr2' obtain rs where g3: "good (snd st3)"
          and rs: "WorkflowResults (fst st3) = WorkflowResults ctx @ rs"
            "list_all2 result_of rs (Workflow problem)"
          by auto
        have "st' = collect_result w wd st3"
          using assms unf False \<open>stage_loop w cfg sd (Submits problem) st1 = Inr st2\<close> Inr r
          by (simp add: st2'_def)
        with g3 rs show ?thesis by (auto simp: collect_result_props)
      qed
    qed
  qed
  from both show "good (snd st') \<or> failed_at_step defers st'" by blast
  from both show "Status (fst st') = ''completed'' \<Longrightarrow>
           \<exists>rs. WorkflowResults (fst st') = WorkflowResults ctx @ rs
               \<and> list_all2 result_of rs (Workflow problem)" by blast
qed

lemmas judge_defs = RunJudge_def judge_body_def prepare_dirs_def collect_result_def stage_entry_def
  submitFile_def copyFile_def os_call_def fail_with_def persist_def persisted_def SetStatus_def
  SetMsg_def handleSubmit_ctx_def run_steps.simps(2) run_workflows.simps(2)
  w0_def w_noopen_def cfg0_def wf_hello_def hello_def hello_S2_def ctx0_def Itoa_def
  digits_of.simps zero_step_def zero_JudgeResult_def Quote_def quote_byte_def Let_def



lemma RunJudge_fst: "fst (RunJudge w cfg ctx problem) = fst (snd (judge_body w cfg ctx problem))"
  by (simp add: RunJudge_def case_prod_unfold Let_def)

lemma RunJudge_snd:
  "snd (RunJudge w cfg ctx problem) =
     snd (snd (judge_body w cfg ctx problem)) @ map Clean (fst (judge_body w cfg ctx problem))
     @ [CloseRunning, Persist (persisted (fst (snd (judge_body w cfg ctx problem))))]"
  by (simp add: RunJudge_def case_prod_unfold Let_def)

section \<open>Auxiliary facts about the targeted rescan\<close>

lemma best_of_start:
  "best_of problems {} (u\<lparr>BestScores := fmempty, BestSubmits := fmempty, BestSubmitDate := fmempty\<rparr>)"
  by (simp add: best_of_def)

lemma best_of_Calculate [simp]: "best_of problems S (CalculateTotalScore u) = best_of problems S u"
  by (simp add: best_of_def)

lemma best_of_skip:
  "best_of problems D u \<Longrightarrow> \<not> (Success (JudgeResult x) \<and> problems (Problem x) \<noteq> None)
     \<Longrightarrow> best_of problems (insert x D) u"
  unfolding best_of_def by (auto 4 3)

lemma fmdom_lookup_None: "fmlookup m k = None \<longleftrightarrow> k |\<notin>| fmdom m"
  by (simp add: fmdom_notI fmdom_notD iffI)

lemma best_of_keep:
  assumes b: "best_of problems D u" and s: "Success (JudgeResult x)"
    and p: "problems (Problem x) = Some pr"
    and c: "fmlookup (BestScores u) (Problem x) = Some cb"
    and le: "Score (JudgeResult x) * Weight pr \<le> cb"
  shows "best_of problems (insert x D) u"
  using assms unfolding best_of_def by (auto 4 3)

lemma best_of_install:
  assumes b: "best_of problems D u" and s: "Success (JudgeResult x)"
    and p: "problems (Problem x) = Some pr"
    and c: "\<forall>cb. fmlookup (BestScores u) (Problem x) = Some cb \<longrightarrow> cb < Score (JudgeResult x) * Weight pr"
  shows "best_of problems (insert x D) (install x (Score (JudgeResult x) * Weight pr) u)"
proof -
  let ?w = "Score (JudgeResult x) * Weight pr"
  let ?u = "install x ?w u"
  from b have
    b1: "\<forall>q sid. fmlookup (BestSubmits u) q = Some sid \<longrightarrow>
         (\<exists>s\<in>D. \<exists>pr. ID s = sid \<and> Problem s = q \<and> Success (JudgeResult s)
            \<and> problems q = Some pr
            \<and> fmlookup (BestScores u) q = Some (Score (JudgeResult s) * Weight pr)
            \<and> fmlookup (BestSubmitDate u) q = Some (SubmitTime s))" and
    b2: "\<forall>s\<in>D. \<forall>pr. Success (JudgeResult s) \<longrightarrow> problems (Problem s) = Some pr \<longrightarrow>
         (\<exists>b. fmlookup (BestScores u) (Problem s) = Some b \<and> Score (JudgeResult s) * Weight pr \<le> b)" and
    b3: "fmdom (BestScores u) = fmdom (BestSubmits u)" and
    b4: "fmdom (BestSubmitDate u) = fmdom (BestSubmits u)"
    unfolding best_of_def by blast+
  have c1: "\<forall>q sid. fmlookup (BestSubmits ?u) q = Some sid \<longrightarrow>
         (\<exists>s\<in>insert x D. \<exists>pr. ID s = sid \<and> Problem s = q \<and> Success (JudgeResult s)
            \<and> problems q = Some pr
            \<and> fmlookup (BestScores ?u) q = Some (Score (JudgeResult s) * Weight pr)
            \<and> fmlookup (BestSubmitDate ?u) q = Some (SubmitTime s))"
  proof (intro allI impI)
    fix q sid assume h: "fmlookup (BestSubmits ?u) q = Some sid"
    show "\<exists>s\<in>insert x D. \<exists>pr. ID s = sid \<and> Problem s = q \<and> Success (JudgeResult s)
            \<and> problems q = Some pr
            \<and> fmlookup (BestScores ?u) q = Some (Score (JudgeResult s) * Weight pr)
            \<and> fmlookup (BestSubmitDate ?u) q = Some (SubmitTime s)"
    proof (cases "q = Problem x")
      case True
      with h s p show ?thesis by (auto simp: install_def)
    next
      case False
      with h have "fmlookup (BestSubmits u) q = Some sid" by (simp add: install_def)
      with b1 obtain s0 pr0 where "s0 \<in> D" "ID s0 = sid" "Problem s0 = q" "Success (JudgeResult s0)"
        "problems q = Some pr0" "fmlookup (BestScores u) q = Some (Score (JudgeResult s0) * Weight pr0)"
        "fmlookup (BestSubmitDate u) q = Some (SubmitTime s0)" by blast
      with False show ?thesis by (auto simp: install_def)
    qed
  qed
  have c2: "\<forall>s\<in>insert x D. \<forall>pr'. Success (JudgeResult s) \<longrightarrow> problems (Problem s) = Some pr' \<longrightarrow>
         (\<exists>b. fmlookup (BestScores ?u) (Problem s) = Some b \<and> Score (JudgeResult s) * Weight pr' \<le> b)"
  proof (intro ballI allI impI)
    fix s pr' assume h: "s \<in> insert x D" "Success (JudgeResult s)" "problems (Problem s) = Some pr'"
    show "\<exists>b. fmlookup (BestScores ?u) (Problem s) = Some b \<and> Score (JudgeResult s) * Weight pr' \<le> b"
    proof (cases "s = x")
      case True
      with h p show ?thesis by (simp add: install_def)
    next
      case False
      with h have "s \<in> D" by simp
      with b2 h obtain b0 where b0: "fmlookup (BestScores u) (Problem s) = Some b0"
        "Score (JudgeResult s) * Weight pr' \<le> b0" by blast
      show ?thesis
      proof (cases "Problem s = Problem x")
        case True
        with b0 c have "b0 < ?w" by simp
        with b0 True show ?thesis by (simp add: install_def)
      next
        case False
        with b0 show ?thesis by (simp add: install_def)
      qed
    qed
  qed
  have c3: "fmdom (BestScores ?u) = fmdom (BestSubmits ?u)"
    and c4: "fmdom (BestSubmitDate ?u) = fmdom (BestSubmits ?u)"
    using b3 b4 by (simp_all add: install_def)
  from c1 c2 c3 c4 show ?thesis unfolding best_of_def by blast
qed

lemma best_of_recalc_body:
  assumes "best_of problems D u"
  shows "best_of problems (insert x D) (recalc_body problems x u)"
proof (cases "Success (JudgeResult x) \<and> problems (Problem x) \<noteq> None")
  case False
  then have "recalc_body problems x u = u"
    by (auto simp: recalc_body_def split: option.splits)
  with best_of_skip[OF assms False] show ?thesis by simp
next
  case True
  then obtain pr where s: "Success (JudgeResult x)" and p: "problems (Problem x) = Some pr" by auto
  show ?thesis
  proof (cases "fmlookup (BestScores u) (Problem x)")
    case None
    then have "recalc_body problems x u = install x (Score (JudgeResult x) * Weight pr) u"
      using s p by (simp add: recalc_body_def Let_def)
    moreover have "best_of problems (insert x D) (install x (Score (JudgeResult x) * Weight pr) u)"
      by (rule best_of_install[OF assms s p]) (simp add: None)
    ultimately show ?thesis by simp
  next
    case (Some cb)
    show ?thesis
    proof (cases "Score (JudgeResult x) * Weight pr > cb")
      case True
      then have "recalc_body problems x u = install x (Score (JudgeResult x) * Weight pr) u"
        using s p Some by (simp add: recalc_body_def Let_def)
      moreover have "best_of problems (insert x D) (install x (Score (JudgeResult x) * Weight pr) u)"
        by (rule best_of_install[OF assms s p]) (simp add: Some True)
      ultimately show ?thesis by simp
    next
      case False
      then have "recalc_body problems x u = u"
        using s p Some by (simp add: recalc_body_def Let_def)
      moreover have "best_of problems (insert x D) u"
        by (rule best_of_keep[OF assms s p Some]) (use False in simp)
      ultimately show ?thesis by simp
    qed
  qed
qed

lemma best_of_fold:
  "best_of problems D u \<Longrightarrow> best_of problems (D \<union> set xs) (fold (recalc_body problems) xs u)"
proof (induction xs arbitrary: D u)
  case Nil
  then show ?case by simp
next
  case (Cons x xs)
  from best_of_recalc_body[OF Cons.prems, of x]
  have "best_of problems (insert x D \<union> set xs) (fold (recalc_body problems) xs (recalc_body problems x u))"
    by (rule Cons.IH)
  then show ?case by simp
qed

lemma recalc_body_UserID [simp]: "UserID (recalc_body ps s u) = UserID u"
  by (simp add: recalc_body_def Let_def split: option.splits)

lemma fold_recalc_UserID [simp]: "UserID (fold (recalc_body ps) xs u) = UserID u"
  by (induction xs arbitrary: u) simp_all

text \<open>The targeted rescan, seen from outside.\<close>

lemma targeted_rescan_result:
  assumes "keys_ok st"
  shows "\<exists>u'. users (RecalculateUserBestScoresWithProblems tok userID problems st) userID = Some u'
      \<and> best_of problems {s \<in> set (submits st). User s = userID \<and> Status s = ''completed''} u'
      \<and> TotalScore u' = sum_values (BestScores u')
      \<and> UserID u' = userID"
    and "submits (RecalculateUserBestScoresWithProblems tok userID problems st) = submits st"
proof -
  let ?g = "GetUserByID tok userID st"
  let ?u0 = "(fst ?g)\<lparr>BestScores := fmempty, BestSubmits := fmempty, BestSubmitDate := fmempty\<rparr>"
  let ?subs = "filter (\<lambda>s. User s = userID \<and> Status s = ''completed'') (submits st)"
  let ?u1 = "fold (recalc_body problems) ?subs ?u0"
  have r: "RecalculateUserBestScoresWithProblems tok userID problems st
            = UpdateUser (CalculateTotalScore ?u1) (snd ?g)"
    by (simp add: RecalculateUserBestScoresWithProblems_def case_prod_unfold Let_def)
  have id: "UserID ?u1 = userID" using assms by (simp add: GetUserByID_UserID)
  have look: "users (UpdateUser (CalculateTotalScore ?u1) (snd ?g)) userID = Some (CalculateTotalScore ?u1)"
    using id by (simp add: UpdateUser_def Let_def)
  have "best_of problems ({} \<union> set ?subs) ?u1"
    by (rule best_of_fold[OF best_of_start])
  moreover have "{} \<union> set ?subs = {s \<in> set (submits st). User s = userID \<and> Status s = ''completed''}"
    by auto
  ultimately have b: "best_of problems {s \<in> set (submits st). User s = userID \<and> Status s = ''completed''} ?u1"
    by simp
  show "\<exists>u'. users (RecalculateUserBestScoresWithProblems tok userID problems st) userID = Some u'
      \<and> best_of problems {s \<in> set (submits st). User s = userID \<and> Status s = ''completed''} u'
      \<and> TotalScore u' = sum_values (BestScores u')
      \<and> UserID u' = userID"
    using look b id by (simp add: r CalculateTotalScore_def best_of_def)
  show "submits (RecalculateUserBestScoresWithProblems tok userID problems st) = submits st"
    by (simp add: r)
qed

lemma find_map_replace:
  "find P xs = Some x \<Longrightarrow> P y \<Longrightarrow> find P (map (\<lambda>r. if P r then y else r) xs) = Some y"
  by (induction xs) (auto split: if_splits)

lemma find_Some_holds: "find P xs = Some x \<Longrightarrow> P x \<and> x \<in> set xs"
  by (induction xs) (auto split: if_splits)

lemma persisted_fields [simp]:
  "ID (persisted s) = ID s" "User (persisted s) = User s" "Problem (persisted s) = Problem s"
  "Status (persisted s) = Status s" "Msg (persisted s) = Msg s"
  "JudgeResult (persisted s) = JudgeResult s" "WorkflowResults (persisted s) = WorkflowResults s"
  "SubmitsHashes (persisted s) = SubmitsHashes s" "SubmitTime (persisted s) = SubmitTime s"
  by (simp_all add: persisted_def)

lemma UpdateSubmit_existing:
  assumes "GetSubmitByID submitID st = Some submit" "ID s' = submitID"
  shows "GetSubmitByID submitID (UpdateSubmit s' st) = Some (persisted s')"
    and "users (UpdateSubmit s' st) = users st"
proof -
  from find_Some_holds[OF assms(1)[unfolded GetSubmitByID_def]]
  have in_rows: "ID submit = submitID" "submit \<in> set (submits st)" by simp_all
  then have mem: "ID s' \<in> ID ` set (submits st)" using assms(2) by force
  have "find (\<lambda>s. ID s = submitID) (map (\<lambda>r. if ID r = submitID then persisted s' else r) (submits st))
        = Some (persisted s')"
    by (rule find_map_replace[OF assms(1)[unfolded GetSubmitByID_def]]) (simp add: assms(2))
  then show "GetSubmitByID submitID (UpdateSubmit s' st) = Some (persisted s')"
    using mem assms(2) by (simp add: GetSubmitByID_def UpdateSubmit_def)
  show "users (UpdateSubmit s' st) = users st"
    by (simp add: UpdateSubmit_def)
qed


lemma not_bad_simps [simp]:
  "\<not> bad_exec (Clean c)" "\<not> bad_exec CloseRunning" "\<not> bad_exec (Persist s)"
  by simp_all

lemma good_Clean [simp]: "good (map Clean cs)"
  by (induction cs) simp_all

lemma starts_work_Clean [simp]: "e \<in> set (map Clean cs) \<Longrightarrow> \<not> starts_work e"
  by auto

section \<open>The total score\<close>

lemma sum_values_empty [simp]: "sum_values fmempty = 0"
  by (simp add: sum_values_def)

lemma range_order_total:
  "distinct ks \<Longrightarrow> set ks = fmdom' m \<Longrightarrow>
   fold (\<lambda>k total. total + the (fmlookup m k)) ks 0 = sum_values m"
proof -
  have gen: "\<And>acc. distinct ks \<Longrightarrow>
      fold (\<lambda>k total. total + the (fmlookup m k)) ks acc = acc + (\<Sum>k\<in>set ks. the (fmlookup m k))"
    by (induction ks) (simp_all add: add.assoc)
  assume "distinct ks" "set ks = fmdom' m"
  then show ?thesis using gen[of 0] by (simp add: sum_values_def)
qed

lemma total_ok_Calculate [simp]: "total_ok (CalculateTotalScore u)"
  by (simp add: total_ok_def CalculateTotalScore_def)

lemma store_ok_UpdateUser: "store_ok st \<Longrightarrow> store_ok (UpdateUser u st)"
  by (simp add: store_ok_def UpdateUser_def Let_def)

lemma store_ok_GetUserByID: "store_ok st \<Longrightarrow> store_ok (snd (GetUserByID tok userID st))"
  by (auto simp: store_ok_def GetUserByID_def CreateUser_def total_ok_def Let_def split: option.splits if_splits)

lemma store_ok_rows [simp]: "store_ok (st\<lparr>submits := rows\<rparr>) = store_ok st"
  by (simp add: store_ok_def)

lemma store_ok_incremental:
  "store_ok st \<Longrightarrow> store_ok (UpdateUserSubmitResult tok userID submit problem st)"
  unfolding UpdateUserSubmitResult_def
  by (simp add: case_prod_unfold store_ok_UpdateUser store_ok_GetUserByID Let_def)

lemma store_ok_full: "DoFullUserScan problems st = Inr st' \<Longrightarrow> store_ok st'"
  by (auto simp: DoFullUserScan_def store_ok_def split: sum.splits)

lemma store_ok_targeted:
  "store_ok st \<Longrightarrow> store_ok (RecalculateUserBestScoresWithProblems tok userID problems st)"
  unfolding RecalculateUserBestScoresWithProblems_def
  by (simp add: case_prod_unfold store_ok_UpdateUser store_ok_GetUserByID Let_def)

lemma store_ok_UpdateSubmit [simp]: "store_ok (UpdateSubmit s st) = store_ok st"
  by (simp add: UpdateSubmit_def store_ok_def)

lemma store_ok_rescored:
  "store_ok st \<Longrightarrow> ModifySubmissionResult tok submitID score message problems st = Inr st'
     \<Longrightarrow> store_ok st'"
  by (auto simp: ModifySubmissionResult_def Let_def store_ok_targeted split: option.splits)

lemma reachable_store_ok: "reachable st \<Longrightarrow> store_ok st"
proof (induction rule: reachable.induct)
  case empty_db
  show ?case by (simp add: store_ok_def)
next
  case (rows_written st rows)
  then show ?case by simp
next
  case (user_fetched st tok userID)
  then show ?case by (simp add: store_ok_GetUserByID)
next
  case (incremental st tok userID submit problem)
  then show ?case by (simp add: store_ok_incremental)
next
  case (full_rescan st problems st')
  then show ?case by (simp add: store_ok_full)
next
  case (targeted_rescan st tok userID problems)
  then show ?case by (simp add: store_ok_targeted)
next
  case (rescored st tok submitID score message problems st')
  then show ?case by (simp add: store_ok_rescored)
qed

text \<open>
  Claim C2. In every store the program reaches, the \<open>TotalScore\<close> of every User row is
  the sum of the values of its \<open>BestScores\<close>: user creation, the incremental update,
  the full rescan, the targeted rescan and the admin rescoring all write rows whose
  total has just been recomputed.
\<close>

theorem total_score_is_sum_of_best_scores:
  "reachable st \<Longrightarrow> users st k = Some u \<Longrightarrow> TotalScore u = sum_values (BestScores u)"
  using reachable_store_ok[of st] by (simp add: store_ok_def total_ok_def)

lemma S1_store: "UpdateUserSubmitResult ''t'' ''alice'' sub1 hello store0
   = \<lparr>users = [''alice'' \<mapsto> \<lparr>UserID = ''alice'', Token = ''t'', BestScores = fmupd ''hello'' 100 fmempty,
        BestSubmits = fmupd ''hello'' ''1'' fmempty, BestSubmitDate = fmupd ''hello'' 1 fmempty, TotalScore = 100\<rparr>],
      submits = []\<rparr>"
  by (simp add: agg_defs example_defs sum_values_single)

theorem total_score_witness:
  "reachable (UpdateUserSubmitResult ''t'' ''alice'' sub1 hello store0)
   \<and> users (UpdateUserSubmitResult ''t'' ''alice'' sub1 hello store0) ''alice'' = 
        Some \<lparr>UserID = ''alice'', Token = ''t'', BestScores = fmupd ''hello'' 100 fmempty,
        BestSubmits = fmupd ''hello'' ''1'' fmempty, BestSubmitDate = fmupd ''hello'' 1 fmempty, TotalScore = 100\<rparr>
   \<and> (100::real) = sum_values (fmupd ''hello'' 100 fmempty)"
proof -
  have r: "reachable (UpdateUserSubmitResult ''t'' ''alice'' sub1 hello store0)"
    unfolding store0_def by (rule incremental[OF empty_db])
  have u: "users (UpdateUserSubmitResult ''t'' ''alice'' sub1 hello store0) ''alice'' = 
        Some \<lparr>UserID = ''alice'', Token = ''t'', BestScores = fmupd ''hello'' 100 fmempty,
        BestSubmits = fmupd ''hello'' ''1'' fmempty, BestSubmitDate = fmupd ''hello'' 1 fmempty, TotalScore = 100\<rparr>"
    by (simp add: S1_store)
  show ?thesis using r u total_score_is_sum_of_best_scores[OF r u] by simp
qed

section \<open>The startup Reaper\<close>

text \<open>
  Claim C3. When the database service has been initialised, every submission row has
  one of the statuses \<open>completed\<close>, \<open>failed\<close>, \<open>dead\<close>: a row with one of these is kept
  as it is, every other row is rewritten to \<open>dead\<close>, and the users are untouched.
\<close>

theorem reaper_leaves_terminal_statuses:
  "NewDatabaseService open_ok st = Inr st' \<Longrightarrow>
     (\<forall>s \<in> set (submits st'). Status s = ''completed'' \<or> Status s = ''failed'' \<or> Status s = ''dead'')
   \<and> submits st' =
       map (\<lambda>s. if Status s = ''completed'' \<or> Status s = ''failed'' \<or> Status s = ''dead'' then s
                else s\<lparr>Status := ''dead''\<rparr>) (submits st)
   \<and> users st' = users st"
  by (auto simp: NewDatabaseService_def reap_def split: if_splits)

theorem reaper_witness:
  "NewDatabaseService True store_S6 = Inr (store_S6\<lparr>submits := [sub1\<lparr>Status := ''dead''\<rparr>, sub2]\<rparr>)
   \<and> map Status (submits (store_S6\<lparr>submits := [sub1\<lparr>Status := ''dead''\<rparr>, sub2]\<rparr>))
       = [''dead'', ''completed'']"
proof -
  have h: "NewDatabaseService True store_S6 = Inr (store_S6\<lparr>submits := [sub1\<lparr>Status := ''dead''\<rparr>, sub2]\<rparr>)"
    by (simp add: NewDatabaseService_def reap_def store_S6_def sub1_def sub2_def)
  show ?thesis using h reaper_leaves_terminal_statuses[OF h]
    by (simp add: store_S6_def sub1_def sub2_def)
qed

section \<open>The update rule of the best maps\<close>

text \<open>
  The rule the code follows in the incremental update and in the full rescan, for a
  completed and successful submission of weighted score \<open>w\<close>: against an existing
  entry \<open>b\<close> the submission is installed exactly when \<open>b < w\<close>, as the claim says;
  without an entry it is installed exactly when \<open>0 < w\<close>.
\<close>

lemma update_body_rule:
  assumes "Status s = ''completed''" and "Success (JudgeResult s)"
  shows "fmlookup (BestScores u) (Problem s) = Some b \<Longrightarrow>
           update_body s p u =
             (if b < Score (JudgeResult s) * Weight p
              then install s (Score (JudgeResult s) * Weight p) u else u)"
    and "fmlookup (BestScores u) (Problem s) = None \<Longrightarrow>
           update_body s p u =
             (if 0 < Score (JudgeResult s) * Weight p
              then install s (Score (JudgeResult s) * Weight p) u else u)"
  using assms by (simp_all add: update_body_def index0_def Let_def)

lemma scan_body_rule:
  assumes "Status s = ''completed''" and "Success (JudgeResult s)" and "problems (Problem s) = Some p"
  shows "fmlookup (BestScores u) (Problem s) = Some b \<Longrightarrow>
           scan_body problems s u =
             (if b < Score (JudgeResult s) * Weight p
              then install s (Score (JudgeResult s) * Weight p) u else u)"
    and "fmlookup (BestScores u) (Problem s) = None \<Longrightarrow>
           scan_body problems s u =
             (if 0 < Score (JudgeResult s) * Weight p
              then install s (Score (JudgeResult s) * Weight p) u else u)"
  using assms by (simp_all add: scan_body_def index0_def Let_def)

text \<open>
  Claim C1, evaluated where the code departs from it. The claim treats a missing
  \<open>best_scores\<close> entry as minus infinity, so that the first completed, successful
  submission of a problem is always installed. The incremental update and the full
  rescan read the missing entry as 0: for alice, who has no entry, and a completed,
  successful submission of weighted score 0, both leave her record as it is. The
  targeted rescan, which tests the presence of the entry, installs the submission.
\<close>

theorem zero_score_first_submission_not_installed:
  "users (UpdateUserSubmitResult ''t'' ''alice'' sub_zero hello store_zero) ''alice'' = Some alice0
   \<and> DoFullUserScan problems0 store_zero = Inr store_zero
   \<and> users (RecalculateUserBestScoresWithProblems ''t'' ''alice'' problems0 store_zero) ''alice''
       = Some (alice0\<lparr>BestScores := fmupd ''hello'' 0 fmempty,
                       BestSubmits := fmupd ''hello'' ''3'' fmempty,
                       BestSubmitDate := fmupd ''hello'' 3 fmempty\<rparr>)"
proof -
  have a: "users (UpdateUserSubmitResult ''t'' ''alice'' sub_zero hello store_zero) ''alice'' = Some alice0"
    by (simp add: agg_defs example_defs)
  have b: "DoFullUserScan problems0 store_zero = Inr store_zero"
    by (simp add: agg_defs example_defs fun_eq_iff)
  have c: "users (RecalculateUserBestScoresWithProblems ''t'' ''alice'' problems0 store_zero) ''alice''
       = Some (alice0\<lparr>BestScores := fmupd ''hello'' 0 fmempty,
                       BestSubmits := fmupd ''hello'' ''3'' fmempty,
                       BestSubmitDate := fmupd ''hello'' 3 fmempty\<rparr>)"
    by (simp add: agg_defs example_defs sum_values_single)
  from a b c show ?thesis by blast
qed

section \<open>Ties\<close>

lemma incremental_unfold:
  "UpdateUserSubmitResult tok userID submit problem st =
     UpdateUser (update_body submit problem (fst (GetUserByID tok userID st))) (snd (GetUserByID tok userID st))"
  by (simp add: UpdateUserSubmitResult_def case_prod_unfold Let_def)

lemma update_body_UserID [simp]: "UserID (update_body s p u) = UserID u"
  by (simp add: update_body_def Let_def)

lemma update_body_TotalScore: "update_body s p (u\<lparr>TotalScore := t\<rparr>) = (update_body s p u)\<lparr>TotalScore := t\<rparr>"
  by (simp add: update_body_def install_def Let_def)

lemma update_body_tie:
  assumes "Status s1 = ''completed''" "Success (JudgeResult s1)" "Problem s2 = Problem s1"
    "Score (JudgeResult s2) * Weight problem = Score (JudgeResult s1) * Weight problem"
  shows "update_body s2 problem (update_body s1 problem u) = update_body s1 problem u"
proof -
  define w where "w = Score (JudgeResult s1) * Weight problem"
  have w1: "Score (JudgeResult s1) * Weight problem = w" by (simp add: w_def)
  have w2: "Score (JudgeResult s2) * Weight problem = w" unfolding w_def by (rule assms(4))
  show ?thesis
    unfolding update_body_def Let_def w1 w2 using assms(1-3) by (simp add: index0_install)
qed

lemma scan_body_tie:
  assumes "Status s1 = ''completed''" "Success (JudgeResult s1)" "Problem s2 = Problem s1"
    "problems (Problem s1) = Some problem"
    "Score (JudgeResult s2) * Weight problem = Score (JudgeResult s1) * Weight problem"
  shows "scan_body problems s2 (scan_body problems s1 u) = scan_body problems s1 u"
proof -
  define w where "w = Score (JudgeResult s1) * Weight problem"
  have w1: "Score (JudgeResult s1) * Weight problem = w" by (simp add: w_def)
  have w2: "Score (JudgeResult s2) * Weight problem = w" unfolding w_def by (rule assms(5))
  have k: "problems (Problem s2) = Some problem" using assms(3,4) by simp
  show ?thesis
    unfolding scan_body_def Let_def using assms(1-4) k by (simp add: index0_install w1 w2)
qed

lemma recalc_body_tie:
  assumes "Success (JudgeResult s1)" "Problem s2 = Problem s1"
    "problems (Problem s1) = Some problem"
    "Score (JudgeResult s2) * Weight problem = Score (JudgeResult s1) * Weight problem"
  shows "recalc_body problems s2 (recalc_body problems s1 u) = recalc_body problems s1 u"
proof -
  define w where "w = Score (JudgeResult s1) * Weight problem"
  have w1: "Score (JudgeResult s1) * Weight problem = w" by (simp add: w_def)
  have w2: "Score (JudgeResult s2) * Weight problem = w" unfolding w_def by (rule assms(4))
  show ?thesis
    unfolding recalc_body_def Let_def using assms(1-3)
    by (auto simp: install_def w1 w2 split: option.splits)
qed

lemma incremental_tie:
  assumes k: "keys_ok st"
    and s1: "Status s1 = ''completed''" "Success (JudgeResult s1)"
    and p: "Problem s2 = Problem s1"
    and e: "Score (JudgeResult s2) * Weight problem = Score (JudgeResult s1) * Weight problem"
  shows "UpdateUserSubmitResult tok2 userID s2 problem (UpdateUserSubmitResult tok1 userID s1 problem st)
         = UpdateUserSubmitResult tok1 userID s1 problem st"
proof -
  let ?g = "GetUserByID tok1 userID st"
  let ?u1 = "update_body s1 problem (fst ?g)"
  let ?st1 = "UpdateUser ?u1 (snd ?g)"
  have id: "UserID ?u1 = userID" using k by (simp add: GetUserByID_UserID)
  have st1: "UpdateUserSubmitResult tok1 userID s1 problem st = ?st1"
    by (rule incremental_unfold)
  have look: "users ?st1 userID = Some (CalculateTotalScore ?u1)"
    using id by (simp add: UpdateUser_def Let_def)
  then have g2: "GetUserByID tok2 userID ?st1 = (CalculateTotalScore ?u1, ?st1)"
    by (rule GetUserByID_present)
  have body2: "update_body s2 problem (CalculateTotalScore ?u1) = CalculateTotalScore ?u1"
    by (simp add: CalculateTotalScore_def update_body_TotalScore update_body_tie[OF s1 p e])
  have "UpdateUserSubmitResult tok2 userID s2 problem ?st1 = UpdateUser (CalculateTotalScore ?u1) ?st1"
    by (simp add: incremental_unfold g2 body2)
  also have "\<dots> = ?st1"
    by (rule UpdateUser_same) (use look id in simp_all)
  finally show ?thesis by (simp add: st1)
qed

text \<open>
  Claim C5. The best maps change only on a strictly greater weighted score. When a
  completed, successful submission has been taken into account, a second submission
  to the same problem with an equal weighted score changes nothing: the incremental
  update leaves the whole store as the first update left it, and the bodies of the
  full and of the targeted rescan leave the user as they found it. So
  \<open>best_submits\<close> keeps the submission observed first and \<open>best_scores\<close> is unchanged.
\<close>

theorem equal_score_keeps_first:
  assumes "reachable st"
    and "Status s1 = ''completed''" and "Success (JudgeResult s1)"
    and "Problem s2 = Problem s1"
    and "problems (Problem s1) = Some problem"
    and "Score (JudgeResult s2) * Weight problem = Score (JudgeResult s1) * Weight problem"
  shows "UpdateUserSubmitResult tok2 userID s2 problem (UpdateUserSubmitResult tok1 userID s1 problem st)
           = UpdateUserSubmitResult tok1 userID s1 problem st
       \<and> scan_body problems s2 (scan_body problems s1 u) = scan_body problems s1 u
       \<and> recalc_body problems s2 (recalc_body problems s1 u) = recalc_body problems s1 u"
  using assms
  by (simp add: incremental_tie reachable_keys_ok scan_body_tie recalc_body_tie)

lemma S5_first: "UpdateUserSubmitResult ''t'' ''alice'' sub1 hello store0
   = \<lparr>users = [''alice'' \<mapsto> alice_S5], submits = []\<rparr>"
  by (simp add: agg_defs example_defs sum_values_single)

theorem equal_score_keeps_first_witness:
  "reachable store0 \<and> Status sub1 = ''completed'' \<and> Success (JudgeResult sub1)
   \<and> Problem sub2 = Problem sub1 \<and> problems0 (Problem sub1) = Some hello
   \<and> Score (JudgeResult sub2) * Weight hello = Score (JudgeResult sub1) * Weight hello
   \<and> UpdateUserSubmitResult ''t'' ''alice'' sub2 hello
        (UpdateUserSubmitResult ''t'' ''alice'' sub1 hello store0)
       = \<lparr>users = [''alice'' \<mapsto> alice_S5], submits = []\<rparr>
   \<and> fmlookup (BestSubmits alice_S5) ''hello'' = Some (ID sub1)
   \<and> TotalScore alice_S5 = 100"
proof -
  have r: "reachable store0" unfolding store0_def by (rule empty_db)
  have h: "Status sub1 = ''completed''" "Success (JudgeResult sub1)" "Problem sub2 = Problem sub1"
    "problems0 (Problem sub1) = Some hello"
    "Score (JudgeResult sub2) * Weight hello = Score (JudgeResult sub1) * Weight hello"
    by (simp_all add: example_defs)
  have v: "fmlookup (BestSubmits alice_S5) ''hello'' = Some (ID sub1)" "TotalScore alice_S5 = 100"
    by (simp_all add: example_defs)
  show ?thesis
    using r h v equal_score_keeps_first[where st = store0 and ?s1.0 = sub1 and ?s2.0 = sub2
        and problems = problems0 and problem = hello and ?tok1.0 = "''t''" and ?tok2.0 = "''t''"
        and userID = "''alice''" and u = alice0, OF r h]
    by (simp add: S5_first)
qed

section \<open>Completed submissions\<close>

text \<open>
  Claim C4, for the submissions that the judge completes. When \<open>RunJudge\<close> starts from
  a context without workflow results, as \<open>handleSubmit\<close> builds it, and ends with the
  status \<open>completed\<close>, the context has one workflow result per workflow of the problem,
  in order, each with one step result per step, and every step result has exit code
  0; this context is the row written last.
\<close>

theorem judge_completed_results:
  assumes "WorkflowResults ctx = []"
    and "Status (fst (RunJudge w cfg ctx problem)) = ''completed''"
  shows "length (WorkflowResults (fst (RunJudge w cfg ctx problem))) = length (Workflow problem)
       \<and> (\<forall>wr\<in>set (WorkflowResults (fst (RunJudge w cfg ctx problem))).
             \<forall>sr\<in>set (WfSteps wr). StepExitCode sr = 0)
       \<and> list_all2 result_of (WorkflowResults (fst (RunJudge w cfg ctx problem))) (Workflow problem)
       \<and> last (snd (RunJudge w cfg ctx problem)) = Persist (persisted (fst (RunJudge w cfg ctx problem)))"
proof -
  obtain defers st' where jb: "judge_body w cfg ctx problem = (defers, st')"
    by (cases "judge_body w cfg ctx problem")
  have f: "fst (RunJudge w cfg ctx problem) = fst st'" by (simp add: RunJudge_fst jb)
  from judge_body_props(2)[OF jb] assms f
  have l: "list_all2 result_of (WorkflowResults (fst st')) (Workflow problem)" by auto
  then have len: "length (WorkflowResults (fst st')) = length (Workflow problem)"
    by (rule list_all2_lengthD)
  have z: "\<forall>wr\<in>set (WorkflowResults (fst st')). \<forall>sr\<in>set (WfSteps wr). StepExitCode sr = 0"
  proof
    fix wr assume "wr \<in> set (WorkflowResults (fst st'))"
    with l obtain wflow where "result_of wr wflow"
      by (auto simp: list_all2_conv_all_nth in_set_conv_nth)
    then show "\<forall>sr\<in>set (WfSteps wr). StepExitCode sr = 0"
      by (simp add: result_of_def list_all_iff)
  qed
  have la: "last (snd (RunJudge w cfg ctx problem)) = Persist (persisted (fst st'))"
    by (simp add: RunJudge_snd jb)
  from l len z la show ?thesis by (simp add: f)
qed

lemma run_hello:
  "fst (RunJudge w0 cfg0 ctx0 hello) =
     ctx0\<lparr>Status := ''completed'', Msg := ''judge successfully finished'',
          SubmitsHashes := [\<lparr>HPath = ''main.py'', Hash = ''5d41402abc4b2a76b9719d911017c592''\<rparr>],
          WorkflowResults := [\<lparr>WfSuccess = True, WfLogs = [], WfExitCode = 0,
             WfSteps = [\<lparr>StepLogs = [], StepExitCode = 0\<rparr>, \<lparr>StepLogs = [], StepExitCode = 0\<rparr>]\<rparr>],
          JudgeResult := \<lparr>Success = True, Score = 80, JMsg = ''ok'', Memory = 0, Time = 0\<rparr>\<rparr>"
  by (simp add: judge_defs)

theorem judge_completed_results_witness:
  "WorkflowResults ctx0 = [] \<and> Status (fst (RunJudge w0 cfg0 ctx0 hello)) = ''completed''
   \<and> length (WorkflowResults (fst (RunJudge w0 cfg0 ctx0 hello))) = length (Workflow hello)
   \<and> map (\<lambda>wr. map StepExitCode (WfSteps wr)) (WorkflowResults (fst (RunJudge w0 cfg0 ctx0 hello)))
       = [[0, 0]]"
proof -
  have h1: "WorkflowResults ctx0 = []" by (simp add: ctx0_def handleSubmit_ctx_def)
  have h2: "Status (fst (RunJudge w0 cfg0 ctx0 hello)) = ''completed''" by (simp add: run_hello)
  have v: "map (\<lambda>wr. map StepExitCode (WfSteps wr)) (WorkflowResults (fst (RunJudge w0 cfg0 ctx0 hello)))
       = [[0, 0]]" by (simp add: run_hello)
  show ?thesis using h1 h2 v judge_completed_results[OF h1 h2] by simp
qed

lemma run_S2:
  "fst (RunJudge w0 cfg0 ctx0 hello_S2) =
     ctx0\<lparr>Status := ''failed'', Msg := ''failed to run judge 1 step 1'',
          SubmitsHashes := [\<lparr>HPath = ''main.py'', Hash = ''5d41402abc4b2a76b9719d911017c592''\<rparr>]\<rparr>"
  by (simp add: judge_defs)

text \<open>
  The claim as stated, about every submission that reaches \<open>completed\<close>, fails for the
  admin rescoring: the submission of scenario S2 failed in its first step and has no
  workflow result; rescoring it sets it to \<open>completed\<close> and leaves the list empty,
  while the problem has one workflow.
\<close>

theorem rescored_submission_counterexample:
  "\<exists>st' row.
      ModifySubmissionResult ''t'' ''17'' 50 ''regraded'' [''hello'' \<mapsto> hello_S2]
        (UpdateSubmit (fst (RunJudge w0 cfg0 ctx0 hello_S2)) store0) = Inr st'
    \<and> GetSubmitByID ''17'' st' = Some row
    \<and> Status row = ''completed''
    \<and> WorkflowResults row = []
    \<and> length (Workflow hello_S2) = 1"
proof -
  let ?st = "UpdateSubmit (fst (RunJudge w0 cfg0 ctx0 hello_S2)) store0"
  let ?row = "(persisted (fst (RunJudge w0 cfg0 ctx0 hello_S2)))
                \<lparr>JudgeResult := (JudgeResult (fst (RunJudge w0 cfg0 ctx0 hello_S2)))
                                  \<lparr>Score := 50, Success := True\<rparr>,
                 Msg := ''regraded'', Status := ''completed''\<rparr>"
  let ?st1 = "UpdateSubmit ?row ?st"
  have g: "GetSubmitByID ''17'' ?st = Some (persisted (fst (RunJudge w0 cfg0 ctx0 hello_S2)))"
    unfolding run_S2
    by (simp add: GetSubmitByID_def UpdateSubmit_def store0_def persisted_def ctx0_def
        handleSubmit_ctx_def Itoa_def digits_of.simps)
  have id: "ID ?row = ''17''"
    unfolding run_S2 by (simp add: ctx0_def handleSubmit_ctx_def Itoa_def digits_of.simps)
  have u: "User ?row = ''alice''"
    unfolding run_S2 by (simp add: ctx0_def handleSubmit_ctx_def)
  have m: "ModifySubmissionResult ''t'' ''17'' 50 ''regraded'' [''hello'' \<mapsto> hello_S2] ?st
           = Inr (RecalculateUserBestScoresWithProblems ''t'' ''alice'' [''hello'' \<mapsto> hello_S2] ?st1)"
    using g u by (simp add: ModifySubmissionResult_def Let_def del: fun_upd_apply)
  have "keys_ok store0" by (simp add: keys_ok_def store0_def)
  then have k: "keys_ok ?st1" by simp
  have row1: "GetSubmitByID ''17'' ?st1 = Some (persisted ?row)"
    by (rule UpdateSubmit_existing(1)[OF g id])
  have "submits (RecalculateUserBestScoresWithProblems ''t'' ''alice'' [''hello'' \<mapsto> hello_S2] ?st1)
        = submits ?st1"
    by (rule targeted_rescan_result(2)[OF k])
  with row1 have row2:
    "GetSubmitByID ''17'' (RecalculateUserBestScoresWithProblems ''t'' ''alice'' [''hello'' \<mapsto> hello_S2] ?st1)
       = Some (persisted ?row)"
    by (simp add: GetSubmitByID_def)
  have s: "Status (persisted ?row) = ''completed''" by simp
  have wr: "WorkflowResults (persisted ?row) = []"
    unfolding run_S2 by (simp add: ctx0_def handleSubmit_ctx_def)
  have l: "length (Workflow hello_S2) = 1" by (simp add: hello_S2_def)
  from m row2 s wr l show ?thesis by blast
qed

section \<open>A failing step\<close>



section \<open>The full rescan is idempotent\<close>



section \<open>Admin rescoring\<close>

text \<open>
  Claim C9. When the submission exists, \<open>ModifySubmissionResult\<close> succeeds; the row of
  the submission then has the status \<open>completed\<close>, the new score and message, and
  \<open>success\<close> exactly when the new score is greater than zero; and the row of the
  submitter has been recomputed from the submitter's completed submissions as the
  store now holds them (\<open>best_of\<close>), with its total.
\<close>

theorem admin_rescoring:
  assumes r: "reachable st" and g: "GetSubmitByID submitID st = Some submit"
  shows "\<exists>st' row u'.
           ModifySubmissionResult tok submitID score message problems st = Inr st'
         \<and> GetSubmitByID submitID st' = Some row
         \<and> row = persisted (submit\<lparr>JudgeResult := (JudgeResult submit)\<lparr>Score := score, Success := (0 < score)\<rparr>,
                                   Msg := message, Status := ''completed''\<rparr>)
         \<and> Status row = ''completed''
         \<and> (Success (JudgeResult row) \<longleftrightarrow> 0 < score)
         \<and> Score (JudgeResult row) = score
         \<and> users st' (User submit) = Some u'
         \<and> best_of problems {s \<in> set (submits st'). User s = User submit \<and> Status s = ''completed''} u'
         \<and> TotalScore u' = sum_values (BestScores u')"
proof -
  let ?s' = "submit\<lparr>JudgeResult := (JudgeResult submit)\<lparr>Score := score, Success := (0 < score)\<rparr>,
                    Msg := message, Status := ''completed''\<rparr>"
  let ?st1 = "UpdateSubmit ?s' st"
  let ?st' = "RecalculateUserBestScoresWithProblems tok (User submit) problems ?st1"
  have id: "ID ?s' = submitID"
    using find_Some_holds[OF g[unfolded GetSubmitByID_def]] by simp
  have m: "ModifySubmissionResult tok submitID score message problems st = Inr ?st'"
    using g by (simp add: ModifySubmissionResult_def Let_def)
  have row1: "GetSubmitByID submitID ?st1 = Some (persisted ?s')"
    by (rule UpdateSubmit_existing(1)[OF g id])
  have k1: "keys_ok ?st1" using reachable_keys_ok[OF r] by simp
  from targeted_rescan_result[OF k1, of tok "User submit" problems]
  obtain u' where u': "users ?st' (User submit) = Some u'"
    "best_of problems {s \<in> set (submits ?st1). User s = User submit \<and> Status s = ''completed''} u'"
    "TotalScore u' = sum_values (BestScores u')"
    and subs: "submits ?st' = submits ?st1"
    by blast
  have row: "GetSubmitByID submitID ?st' = Some (persisted ?s')"
    using row1 subs by (simp add: GetSubmitByID_def)
  show ?thesis
    using m row u' subs by simp
qed

lemma store_S5_scored_reachable: "reachable store_S5_scored"
proof -
  have "reachable (UpdateUserSubmitResult ''t'' ''alice'' sub1 hello store0)"
    unfolding store0_def by (rule incremental[OF empty_db])
  then have "reachable ((UpdateUserSubmitResult ''t'' ''alice'' sub1 hello store0)\<lparr>submits := [sub1, sub2]\<rparr>)"
    by (rule rows_written)
  then show ?thesis by (simp add: S5_first store_S5_scored_def)
qed

theorem admin_rescoring_witness:
  "reachable store_S5_scored \<and> GetSubmitByID ''1'' store_S5_scored = Some sub1
   \<and> ModifySubmissionResult ''t'' ''1'' 0 ''regraded'' problems0 store_S5_scored
       = Inr \<lparr>users = [''alice'' \<mapsto> alice_S5\<lparr>BestSubmits := fmupd ''hello'' ''2'' fmempty,
                                                BestSubmitDate := fmupd ''hello'' 2 fmempty\<rparr>],
              submits = [sub1\<lparr>JudgeResult := \<lparr>Success = False, Score = 0, JMsg = ''ok'', Memory = 0, Time = 0\<rparr>,
                              Msg := ''regraded''\<rparr>, sub2]\<rparr>"
proof -
  have r: "reachable store_S5_scored" by (rule store_S5_scored_reachable)
  have g: "GetSubmitByID ''1'' store_S5_scored = Some sub1"
    by (simp add: GetSubmitByID_def store_S5_scored_def example_defs)
  have m: "ModifySubmissionResult ''t'' ''1'' 0 ''regraded'' problems0 store_S5_scored
       = Inr \<lparr>users = [''alice'' \<mapsto> alice_S5\<lparr>BestSubmits := fmupd ''hello'' ''2'' fmempty,
                                                BestSubmitDate := fmupd ''hello'' 2 fmempty\<rparr>],
              submits = [sub1\<lparr>JudgeResult := \<lparr>Success = False, Score = 0, JMsg = ''ok'', Memory = 0, Time = 0\<rparr>,
                              Msg := ''regraded''\<rparr>, sub2]\<rparr>"
    by (simp add: ModifySubmissionResult_def GetSubmitByID_def UpdateSubmit_def persisted_def
        store_S5_scored_def agg_defs example_defs sum_values_single)
  show ?thesis
    using r g m admin_rescoring[OF r g, of "''t''" 0 "''regraded''" problems0] by simp
qed

section \<open>A failing staging\<close>





text \<open>A file entry fails exactly when the copy fails: the results of \<open>MkdirAll\<close>,
  \<open>Chown\<close> and \<open>Chmod\<close> are not looked at.\<close>

lemma submitFile_fails_iff:
  "fst (submitFile w cfg d p st) =
     (fst (copyFile w
             (snd (os_call w (snd (os_call w (snd st) (MkdirAll (path_Dir w (path_Join w d p)))))
                     (Chown (path_Dir w (path_Join w d p)) (SubmitUid cfg) (SubmitGid cfg))))
             (path_Join w (SubmitDir (fst st)) p) (path_Join w d p)) = None)"
  by (simp add: submitFile_def case_prod_unfold Let_def split: option.splits)




section \<open>Writing to the Userface\<close>

text \<open>
  Claim C10. For a Userface with a buffer, \<open>Write\<close> returns the length of the slice and
  no error, for every slice, with or without a live sink, and whatever the inner write
  to the buffer and the sink returns; the bytes are appended to the buffer.
\<close>

theorem Userface_Write_returns_len_nil:
  "Buffer f = Some b \<Longrightarrow>
   Userface_Write f p = Inr ((length p, False), f\<lparr>Buffer := Some (b @ p)\<rparr>)"
  by (simp add: Userface_Write_def Let_def)

theorem Userface_Write_witness:
  "Buffer uf_broken_sink = Some ''abc''
   \<and> inner_Write uf_broken_sink ''hello'' = (0, True)
   \<and> Userface_Write uf_broken_sink ''hello''
       = Inr ((5, False), uf_broken_sink\<lparr>Buffer := Some ''abchello''\<rparr>)"
proof -
  have h: "Buffer uf_broken_sink = Some ''abc''" by (simp add: uf_broken_sink_def)
  have i: "inner_Write uf_broken_sink ''hello'' = (0, True)"
    by (simp add: inner_Write_def uf_broken_sink_def)
  show ?thesis using h i Userface_Write_returns_len_nil[OF h, of "''hello''"] by simp
qed

end
